(* ===== verification/SG_Prelude.thy ===== *)
theory SG_Prelude
  imports Main "HOL-Library.Word"
begin

text \<open>
  Shared vocabulary of the development: the Rust integer types as fixed-width words, the
  saturating operations of the standard library, the little-endian byte view of a word
  (what a raw memory copy of an integer produces on the two targets of the workspace,
  \<^verbatim>\<open>bpfel-unknown-none\<close> and \<^verbatim>\<open>x86_64\<close>), byte swapping, rotations and the list lemmas
  that several components use.
\<close>

unbundle bit_operations_syntax

section \<open>Integer types\<close>

type_synonym u8 = "8 word"
type_synonym u16 = "16 word"
type_synonym u32 = "32 word"
type_synonym u64 = "64 word"

named_theorems sg_bits \<open>bit-level characterisations\<close>

section \<open>Saturating arithmetic\<close>

text \<open>\<^verbatim>\<open>u64::MAX\<close> and \<^verbatim>\<open>saturating_add\<close>, \<^verbatim>\<open>saturating_sub\<close>, \<^verbatim>\<open>saturating_mul\<close>.\<close>

definition u64_max :: u64 where
  "u64_max = 0xFFFFFFFFFFFFFFFF"

definition saturating_add :: "u64 \<Rightarrow> u64 \<Rightarrow> u64" where
  "saturating_add a b = (if unat a + unat b < 2 ^ 64 then a + b else u64_max)"

definition saturating_sub :: "u64 \<Rightarrow> u64 \<Rightarrow> u64" where
  "saturating_sub a b = (if a < b then 0 else a - b)"

definition saturating_mul :: "u64 \<Rightarrow> u64 \<Rightarrow> u64" where
  "saturating_mul a b = (if unat a * unat b < 2 ^ 64 then a * b else u64_max)"

lemma unat_u64_max [simp]: "unat u64_max = 2 ^ 64 - 1"
  by (simp add: u64_max_def)

lemma unat_lt_2p64 [simp]: "unat (a :: u64) < 18446744073709551616"
  using unsigned_less [of a] by simp

lemma not_2p64_le_unat [simp]: "\<not> 18446744073709551616 \<le> unat (a :: u64)"
  by (simp add: not_le)

lemma unat_le_max [simp]: "unat (a :: u64) \<le> 18446744073709551615"
  using unat_lt_2p64 [of a] by linarith

lemma unat_lt_2p32 [simp]: "unat (a :: u32) < 4294967296"
  using unsigned_less [of a] by simp

lemma unat_saturating_add: "unat (saturating_add a b) = min (unat a + unat b) (2 ^ 64 - 1)"
  by (auto simp: saturating_add_def unat_word_ariths min_def)

lemma unat_saturating_sub: "unat (saturating_sub a b) = unat a - unat b"
  by (simp add: saturating_sub_def unat_sub word_less_nat_alt not_less word_le_nat_alt)

lemma unat_saturating_mul: "unat (saturating_mul a b) = min (unat a * unat b) (2 ^ 64 - 1)"
  by (auto simp: saturating_mul_def unat_word_ariths min_def)

lemma saturating_sub_0 [simp]: "saturating_sub a 0 = a"
  by (simp add: saturating_sub_def)

section \<open>Little-endian byte views\<close>

text \<open>
  \<open>le_bytes n w\<close> is what \<open>n\<close> bytes of memory hold after an integer \<open>w\<close> of \<open>n\<close> bytes is
  stored there; \<open>of_le_bytes\<close> reads an integer back from its bytes.
\<close>

definition le_bytes :: "nat \<Rightarrow> 'a::len word \<Rightarrow> u8 list" where
  "le_bytes n w = map (\<lambda>i. ucast (drop_bit (8 * i) w)) [0..<n]"

fun of_le_bytes :: "u8 list \<Rightarrow> 'a::len word" where
  "of_le_bytes [] = 0"
| "of_le_bytes (b # bs) = ucast b OR push_bit 8 (of_le_bytes bs)"

lemma length_le_bytes [simp]: "length (le_bytes n w) = n"
  by (simp add: le_bytes_def)

lemma nth_le_bytes: "i < n \<Longrightarrow> le_bytes n w ! i = ucast (drop_bit (8 * i) w)"
  by (simp add: le_bytes_def)

lemma bit_of_le_bytes [sg_bits]:
  "bit (of_le_bytes bs :: 'a::len word) i \<longleftrightarrow>
     i < LENGTH('a) \<and> i div 8 < length bs \<and> bit (bs ! (i div 8)) (i mod 8)"
proof (induction bs arbitrary: i)
  case Nil
  then show ?case by simp
next
  case (Cons b bs)
  show ?case
  proof (cases "i < 8")
    case True
    then show ?thesis by (simp add: bit_simps)
  next
    case False
    then obtain j where j: "i = j + 8"
      by (metis add.commute le_add_diff_inverse not_less)
    have "\<not> bit (b :: u8) i"
      using False bit_imp_le_length [of b i] by auto
    moreover have "(j + 8) div 8 = Suc (j div 8)"
      by simp
    ultimately show ?thesis
      using Cons.IH [of j] by (auto simp: j bit_simps)
  qed
qed

lemma bit_nth_le_bytes [sg_bits]:
  "i < n \<Longrightarrow> bit (le_bytes n (w :: 'a::len word) ! i) j \<longleftrightarrow> j < 8 \<and> bit w (8 * i + j)"
  by (auto simp: nth_le_bytes bit_simps)

text \<open>The two round trips of the byte view.\<close>

lemma of_le_bytes_le_bytes:
  assumes "LENGTH('a) \<le> 8 * n"
  shows "of_le_bytes (le_bytes n w) = (w :: 'a::len word)"
proof (rule bit_word_eqI)
  fix i assume "i < LENGTH('a)"
  then have "i div 8 < n" and "8 * (i div 8) + i mod 8 = i"
    using assms by auto
  with \<open>i < LENGTH('a)\<close> show "bit (of_le_bytes (le_bytes n w) :: 'a word) i = bit w i"
    by (simp add: sg_bits)
qed

lemma le_bytes_of_le_bytes:
  assumes "length bs = n" and "8 * n \<le> LENGTH('a)"
  shows "le_bytes n (of_le_bytes bs :: 'a::len word) = bs"
proof (rule nth_equalityI)
  show "length (le_bytes n (of_le_bytes bs :: 'a word)) = length bs"
    using assms by simp
next
  fix i assume "i < length (le_bytes n (of_le_bytes bs :: 'a word))"
  then have i: "i < n" by simp
  have "bit (le_bytes n (of_le_bytes bs :: 'a word) ! i) j = bit (bs ! i) j" if "j < 8" for j
  proof -
    have "8 * i + j < LENGTH('a)" using i that assms by linarith
    with i that assms show ?thesis by (simp add: sg_bits)
  qed
  then show "le_bytes n (of_le_bytes bs :: 'a word) ! i = bs ! i"
    by (intro bit_word_eqI) simp
qed

text \<open>The value of a byte string read as a number, lowest byte first.\<close>

lemma of_le_bytes_Cons_disjoint:
  "(of_le_bytes (b # bs) :: 'a::len word) = ucast b + push_bit 8 (of_le_bytes bs)"
proof -
  have "ucast b AND push_bit 8 (of_le_bytes bs :: 'a word) = 0"
  proof (rule bit_word_eqI)
    fix i assume "i < LENGTH('a)"
    show "bit (ucast b AND push_bit 8 (of_le_bytes bs :: 'a word)) i = bit (0 :: 'a word) i"
      using bit_imp_le_length [of b i] by (auto simp: bit_simps)
  qed
  then show ?thesis
    by (simp add: disjunctive_add_eq_or)
qed

lemma unat_of_le_bytes:
  "8 * length bs \<le> LENGTH('a) \<Longrightarrow>
   unat (of_le_bytes bs :: 'a::len word) < 256 ^ length bs \<and>
   unat (of_le_bytes bs :: 'a word) = foldr (\<lambda>b v. unat b + 256 * v) bs 0"
proof (induction bs)
  case Nil
  then show ?case by simp
next
  case (Cons b bs)
  let ?r = "of_le_bytes bs :: 'a word"
  have IH: "unat ?r < 256 ^ length bs" "unat ?r = foldr (\<lambda>b v. unat b + 256 * v) bs 0"
    using Cons by auto
  have b: "unat b < 256"
    using unsigned_less [of b] by simp
  have bound: "unat b + 256 * unat ?r < 256 ^ length (b # bs)"
    using b IH(1) by simp
  also have "(256::nat) ^ length (b # bs) = (2 ^ 8) ^ length (b # bs)"
    by simp
  also have "\<dots> = 2 ^ (8 * length (b # bs))"
    by (simp only: power_mult)
  also have "\<dots> \<le> 2 ^ LENGTH('a)"
    using Cons.prems by (intro power_increasing) auto
  finally have lim: "unat b + 256 * unat ?r < 2 ^ LENGTH('a)" .
  have ub: "unat (ucast b :: 'a word) = unat b"
    using Cons.prems by (simp add: unsigned_ucast_eq take_bit_nat_eq_self b)
      (metis b le_add1 le_less_trans lim take_bit_nat_eq_self)
  have "unat (push_bit 8 ?r) = 256 * unat ?r"
    using lim by (simp only: unsigned_push_bit_eq take_bit_eq_mod)
      (simp add: push_bit_eq_mult mult.commute)
  then have "unat (of_le_bytes (b # bs) :: 'a word) = unat b + 256 * unat ?r"
    using lim ub by (simp only: of_le_bytes_Cons_disjoint unat_word_ariths) simp
  then show ?case
    using IH bound by simp
qed

section \<open>Byte order\<close>

text \<open>
  \<^verbatim>\<open>swap_bytes\<close> of an \<open>n\<close>-byte integer. Both targets are little-endian, where
  \<^verbatim>\<open>from_be\<close> is \<^verbatim>\<open>swap_bytes\<close>.
\<close>

definition swap_bytes :: "nat \<Rightarrow> 'a::len word \<Rightarrow> 'a word" where
  "swap_bytes n w = of_le_bytes (rev (le_bytes n w))"

definition of_be_bytes :: "u8 list \<Rightarrow> 'a::len word" where
  "of_be_bytes bs = of_le_bytes (rev bs)"

lemma swap_bytes_of_le_bytes:
  "length bs = n \<Longrightarrow> 8 * n \<le> LENGTH('a) \<Longrightarrow>
   swap_bytes n (of_le_bytes bs :: 'a::len word) = of_be_bytes bs"
  by (simp add: swap_bytes_def of_be_bytes_def le_bytes_of_le_bytes)

lemma unat_of_be_bytes:
  "8 * length bs \<le> LENGTH('a) \<Longrightarrow>
   unat (of_be_bytes bs :: 'a::len word) = foldl (\<lambda>v b. 256 * v + unat b) 0 bs"
  by (simp add: of_be_bytes_def unat_of_le_bytes foldr_conv_foldl add.commute)

section \<open>Lists\<close>

lemma take_drop_chain: "take n (drop a xs) @ drop (a + n) xs = drop a xs"
  by (metis add.commute append_take_drop_id drop_drop)

end
