(* ===== verification/SG_Errors.thy ===== *)
theory SG_Errors
  imports SG_Prelude
begin

text \<open>
  \<^verbatim>\<open>sg-common/src/errors.rs\<close>: the error codes the kernel program can signal to
  userspace, their canonical \<^verbatim>\<open>u32\<close> discriminants and their textual form.
\<close>

datatype signal_error = Truncated | HashCollision | PpsOverflow

text \<open>\<^verbatim>\<open>SignalError::from_u32\<close>: the arms of the match in their order.\<close>

definition from_u32 :: "u32 \<Rightarrow> signal_error option" where
  "from_u32 v =
     (if v = 1 then Some Truncated
      else if v = 2 then Some HashCollision
      else if v = 3 then Some PpsOverflow
      else None)"

text \<open>\<^verbatim>\<open>SignalError::as_u32\<close>: the discriminants of the enum declaration.\<close>

fun as_u32 :: "signal_error \<Rightarrow> u32" where
  "as_u32 Truncated = 1"
| "as_u32 HashCollision = 2"
| "as_u32 PpsOverflow = 3"

text \<open>\<^verbatim>\<open>impl Display for SignalError\<close>: the string written to the formatter.\<close>

fun display :: "signal_error \<Rightarrow> string" where
  "display Truncated = ''SignalError::Truncated(ring buffer overrun; frames dropped)''"
| "display HashCollision =
     ''SignalError::HashCollision(5-tuple hash bucket collision; frame discarded)''"
| "display PpsOverflow = ''SignalError::PpsOverflow(pps_delta saturated u32::MAX)''"

text \<open>The discriminants order the codes, as they order the \<^verbatim>\<open>repr(u32)\<close> values.\<close>

instantiation signal_error :: linorder
begin

definition less_eq_signal_error :: "signal_error \<Rightarrow> signal_error \<Rightarrow> bool" where
  "less_eq_signal_error a b \<longleftrightarrow> as_u32 a \<le> as_u32 b"

definition less_signal_error :: "signal_error \<Rightarrow> signal_error \<Rightarrow> bool" where
  "less_signal_error a b \<longleftrightarrow> as_u32 a < as_u32 b"

lemma as_u32_inject [simp]: "as_u32 a = as_u32 b \<longleftrightarrow> a = b"
  by (cases a; cases b) simp_all

instance
  by standard
    (auto simp: less_eq_signal_error_def less_signal_error_def dest: order_le_imp_less_or_eq)

end

lemma from_u32_as_u32 [simp]: "from_u32 (as_u32 e) = Some e"
  by (cases e) (simp_all add: from_u32_def)

text \<open>
  Decoding a raw error word and encoding a code are inverse to each other in both
  directions: a word decodes to a code exactly when it is that code's discriminant, so
  an unknown discriminant is \<^verbatim>\<open>None\<close> and no two codes share one.
\<close>

theorem signal_error_codes: "from_u32 v = Some e \<longleftrightarrow> as_u32 e = v"
  by (cases e) (auto simp: from_u32_def)

lemma display_inject: "display a = display b \<longleftrightarrow> a = b"
  by (cases a; cases b) simp_all

end
