(* ===== verification/SG_Frame.thy ===== *)
theory SG_Frame
  imports SG_Prelude
begin

text \<open>
  \<^verbatim>\<open>sg-common/src/lib.rs\<close>, \<^verbatim>\<open>map_keys.rs\<close> and \<^verbatim>\<open>signal_frame.rs\<close>: the shared
  constants and the 64-byte record that crosses the kernel/userspace boundary, with its
  \<^verbatim>\<open>repr(C, align(64))\<close> layout computed from the field types and its byte image. The
  byte image is the interface between the two programs: the kernel program writes it to the
  ring, the vacuum worker casts the bytes it reads back.
\<close>

section \<open>Constants\<close>

definition NCPU :: nat where
  "NCPU = 32"

definition EVENTS_PIN :: string where
  "EVENTS_PIN = ''/sys/fs/bpf/cyber_signals''"

definition DENY_MAP_ID :: u32 where
  "DENY_MAP_ID = 1"

section \<open>The frame\<close>

text \<open>A fixed-size array \<^verbatim>\<open>[u8; n]\<close> is a list; \<open>frame_wf\<close> states the two sizes.\<close>

record signal_frame =
  flow_hash :: u64
  timestamp_ns :: u64
  l3_hdr :: "u8 list"
  l4_flags :: u32
  pps_delta :: u32
  cpu_id :: u32
  pad :: "u8 list"

definition frame_wf :: "signal_frame \<Rightarrow> bool" where
  "frame_wf f \<longleftrightarrow> length (l3_hdr f) = 20 \<and> length (pad f) = 16"

text \<open>\<^verbatim>\<open>SignalFrame::zeroed\<close>.\<close>

definition zeroed :: signal_frame where
  "zeroed = \<lparr>flow_hash = 0, timestamp_ns = 0, l3_hdr = replicate 20 0, l4_flags = 0,
     pps_delta = 0, cpu_id = 0, pad = replicate 16 0\<rparr>"

lemma frame_wf_zeroed [simp]: "frame_wf zeroed"
  by (simp add: frame_wf_def zeroed_def)

section \<open>The \<^verbatim>\<open>repr(C)\<close> layout\<close>

text \<open>
  Every field starts at the next multiple of its alignment after the field before it, and
  the size is rounded up to the alignment of the struct, here 64.
\<close>

definition align_up :: "nat \<Rightarrow> nat \<Rightarrow> nat" where
  "align_up off a = (off + a - 1) div a * a"

fun repr_c_offsets :: "nat \<Rightarrow> (nat \<times> nat) list \<Rightarrow> nat list" where
  "repr_c_offsets off [] = []"
| "repr_c_offsets off ((sz, al) # fs) =
     align_up off al # repr_c_offsets (align_up off al + sz) fs"

fun repr_c_end :: "nat \<Rightarrow> (nat \<times> nat) list \<Rightarrow> nat" where
  "repr_c_end off [] = off"
| "repr_c_end off ((sz, al) # fs) = repr_c_end (align_up off al + sz) fs"

text \<open>Size and alignment of the seven fields, and the alignment attribute of the struct.\<close>

definition signal_frame_fields :: "(nat \<times> nat) list" where
  "signal_frame_fields = [(8, 8), (8, 8), (20, 1), (4, 4), (4, 4), (4, 4), (16, 1)]"

definition signal_frame_align :: nat where
  "signal_frame_align = 64"

definition SIGNAL_FRAME_SIZE :: nat where
  "SIGNAL_FRAME_SIZE = align_up (repr_c_end 0 signal_frame_fields) signal_frame_align"

lemma SIGNAL_FRAME_SIZE_64 [simp]: "SIGNAL_FRAME_SIZE = 64"
  by (simp add: SIGNAL_FRAME_SIZE_def signal_frame_fields_def signal_frame_align_def align_up_def)

text \<open>The offset of field \<open>i\<close> and the bytes a field occupies in a 64-byte image.\<close>

definition field_offset :: "nat \<Rightarrow> nat" where
  "field_offset i = repr_c_offsets 0 signal_frame_fields ! i"

definition field_size :: "nat \<Rightarrow> nat" where
  "field_size i = fst (signal_frame_fields ! i)"

definition field_bytes :: "nat \<Rightarrow> u8 list \<Rightarrow> u8 list" where
  "field_bytes i bs = take (field_size i) (drop (field_offset i) bs)"

lemma field_offsets [simp]:
  "field_offset 0 = 0" "field_offset (Suc 0) = 8" "field_offset 2 = 16" "field_offset 3 = 36"
  "field_offset 4 = 40" "field_offset 5 = 44" "field_offset 6 = 48"
  by (simp_all add: field_offset_def signal_frame_fields_def align_up_def)

lemma field_sizes [simp]:
  "field_size 0 = 8" "field_size (Suc 0) = 8" "field_size 2 = 20" "field_size 3 = 4"
  "field_size 4 = 4" "field_size 5 = 4" "field_size 6 = 16"
  by (simp_all add: field_size_def signal_frame_fields_def)

section \<open>The byte image\<close>

text \<open>
  What a raw copy of the frame puts in memory (\<^verbatim>\<open>RingBuf::output\<close> copies the 64 bytes
  of the struct) and the cast \<^verbatim>\<open>read_unaligned(raw as *const SignalFrame)\<close>, which reads
  every field at its offset.
\<close>

definition frame_bytes :: "signal_frame \<Rightarrow> u8 list" where
  "frame_bytes f =
     le_bytes 8 (flow_hash f) @ le_bytes 8 (timestamp_ns f) @ l3_hdr f @
     le_bytes 4 (l4_flags f) @ le_bytes 4 (pps_delta f) @ le_bytes 4 (cpu_id f) @ pad f"

definition frame_of_bytes :: "u8 list \<Rightarrow> signal_frame" where
  "frame_of_bytes bs =
     \<lparr>flow_hash = of_le_bytes (field_bytes 0 bs),
      timestamp_ns = of_le_bytes (field_bytes 1 bs),
      l3_hdr = field_bytes 2 bs,
      l4_flags = of_le_bytes (field_bytes 3 bs),
      pps_delta = of_le_bytes (field_bytes 4 bs),
      cpu_id = of_le_bytes (field_bytes 5 bs),
      pad = field_bytes 6 bs\<rparr>"

lemma length_frame_bytes [simp]: "frame_wf f \<Longrightarrow> length (frame_bytes f) = 64"
  by (simp add: frame_bytes_def frame_wf_def)

lemma length_field_bytes:
  assumes "length bs = 64" and "i < 7"
  shows "length (field_bytes i bs) = field_size i"
proof -
  from \<open>i < 7\<close> have "i = 0 \<or> i = Suc 0 \<or> i = 2 \<or> i = 3 \<or> i = 4 \<or> i = 5 \<or> i = 6"
    by arith
  then show ?thesis
    using \<open>length bs = 64\<close> by (elim disjE) (simp_all add: field_bytes_def)
qed

lemma frame_wf_of_bytes [simp]: "length bs = 64 \<Longrightarrow> frame_wf (frame_of_bytes bs)"
  by (simp add: frame_of_bytes_def frame_wf_def length_field_bytes)

lemma frame_of_bytes_inverse:
  "frame_wf f \<Longrightarrow> frame_of_bytes (frame_bytes f) = f"
  by (cases f)
    (simp add: frame_of_bytes_def frame_bytes_def field_bytes_def frame_wf_def of_le_bytes_le_bytes)

lemma frame_bytes_inverse:
  assumes "length bs = 64"
  shows "frame_bytes (frame_of_bytes bs) = bs"
proof -
  have "le_bytes 8 (of_le_bytes (field_bytes 0 bs) :: u64) = field_bytes 0 bs"
    "le_bytes 8 (of_le_bytes (field_bytes (Suc 0) bs) :: u64) = field_bytes (Suc 0) bs"
    "le_bytes 4 (of_le_bytes (field_bytes 3 bs) :: u32) = field_bytes 3 bs"
    "le_bytes 4 (of_le_bytes (field_bytes 4 bs) :: u32) = field_bytes 4 bs"
    "le_bytes 4 (of_le_bytes (field_bytes 5 bs) :: u32) = field_bytes 5 bs"
    using assms by (simp_all add: le_bytes_of_le_bytes length_field_bytes)
  then have "frame_bytes (frame_of_bytes bs) =
      take 8 bs @ take 8 (drop 8 bs) @ take 20 (drop 16 bs) @ take 4 (drop 36 bs) @
      take 4 (drop 40 bs) @ take 4 (drop 44 bs) @ take 16 (drop 48 bs)"
    by (simp add: frame_bytes_def frame_of_bytes_def) (simp add: field_bytes_def)
  also have "\<dots> = bs"
    using assms take_drop_chain [of 16 48 bs] take_drop_chain [of 4 44 bs]
      take_drop_chain [of 4 40 bs] take_drop_chain [of 4 36 bs] take_drop_chain [of 20 16 bs]
      take_drop_chain [of 8 8 bs] append_take_drop_id [of 8 bs] by simp
  finally show ?thesis .
qed

section \<open>The codec as an interface\<close>

text \<open>
  What the two programs rely on when a record crosses the ring: encodings have one size,
  decoding undoes encoding, and every byte string of that size is a valid record.
\<close>

locale frame_codec =
  fixes enc :: "'f \<Rightarrow> u8 list"
    and dec :: "u8 list \<Rightarrow> 'f"
    and wf :: "'f \<Rightarrow> bool"
    and sz :: nat
  assumes length_enc: "wf f \<Longrightarrow> length (enc f) = sz"
    and dec_enc: "wf f \<Longrightarrow> dec (enc f) = f"
    and wf_dec: "length bs = sz \<Longrightarrow> wf (dec bs)"
    and enc_dec: "length bs = sz \<Longrightarrow> enc (dec bs) = bs"
begin

lemma enc_inject: "wf f \<Longrightarrow> wf g \<Longrightarrow> enc f = enc g \<longleftrightarrow> f = g"
  by (metis dec_enc)

lemma bij: "bij_betw enc {f. wf f} {bs. length bs = sz}"
  by (rule bij_betw_byWitness [where f' = dec])
    (auto simp: length_enc dec_enc wf_dec enc_dec)

end

interpretation fc: frame_codec frame_bytes frame_of_bytes frame_wf SIGNAL_FRAME_SIZE
  by unfold_locales (simp_all add: frame_of_bytes_inverse frame_bytes_inverse)

section \<open>Properties\<close>

text \<open>
  The \<^verbatim>\<open>repr(C)\<close> rules, applied to the declared field types, give exactly the
  offsets and the size that the compile-time assertions of \<^verbatim>\<open>signal_frame.rs\<close> state,
  and the fields leave no byte of the 64 to compiler-inserted padding.
\<close>

theorem signal_frame_layout:
  "repr_c_offsets 0 signal_frame_fields = [0, 8, 16, 36, 40, 44, 48] \<and>
   SIGNAL_FRAME_SIZE = 64 \<and> sum_list (map fst signal_frame_fields) = SIGNAL_FRAME_SIZE"
  by (simp add: signal_frame_fields_def align_up_def)

text \<open>
  C18. The record survives the crossing. The byte image of a well-formed frame holds the
  fields at bytes 0, 8, 16, 36, 40, 44 and 48, the integers in little-endian order and the two
  arrays verbatim; casting it back gives the frame. Every string of 64 bytes casts to a
  well-formed frame whose image is that string, so no 64-byte record can fail to decode, and
  the two functions are a bijection between well-formed frames and 64-byte strings.
\<close>

theorem frame_codec_bijection:
  "bij_betw frame_bytes {f. frame_wf f} {bs. length bs = SIGNAL_FRAME_SIZE}
   \<and> (frame_wf f \<longrightarrow> frame_of_bytes (frame_bytes f) = f
        \<and> take 8 (frame_bytes f) = le_bytes 8 (flow_hash f)
        \<and> take 8 (drop 8 (frame_bytes f)) = le_bytes 8 (timestamp_ns f)
        \<and> take 20 (drop 16 (frame_bytes f)) = l3_hdr f
        \<and> take 4 (drop 36 (frame_bytes f)) = le_bytes 4 (l4_flags f)
        \<and> take 4 (drop 40 (frame_bytes f)) = le_bytes 4 (pps_delta f)
        \<and> take 4 (drop 44 (frame_bytes f)) = le_bytes 4 (cpu_id f)
        \<and> drop 48 (frame_bytes f) = pad f)
   \<and> (length bs = SIGNAL_FRAME_SIZE \<longrightarrow>
        frame_wf (frame_of_bytes bs) \<and> frame_bytes (frame_of_bytes bs) = bs)"
  using fc.bij fc.dec_enc [of f] fc.wf_dec [of bs] fc.enc_dec [of bs]
  by (simp add: frame_bytes_def [of f] frame_wf_def [of f] del: SIGNAL_FRAME_SIZE_64)

theorem frame_codec_bijection_witness:
  "frame_of_bytes (frame_bytes (zeroed\<lparr>pps_delta := 258\<rparr>)) = zeroed\<lparr>pps_delta := 258\<rparr>
   \<and> take 4 (drop 40 (frame_bytes (zeroed\<lparr>pps_delta := 258\<rparr>))) = le_bytes 4 (258 :: u32)
   \<and> frame_bytes (frame_of_bytes (replicate 64 7)) = replicate 64 (7 :: u8)"
proof -
  have wf: "frame_wf (zeroed\<lparr>pps_delta := 258\<rparr>)"
    by (simp add: frame_wf_def zeroed_def)
  show ?thesis
    using frame_codec_bijection [of "zeroed\<lparr>pps_delta := 258\<rparr>" "replicate 64 7"] wf by simp
qed

end
