(* ===== verification/SG_Bitfield.thy ===== *)
theory SG_Bitfield
  imports SG_Prelude "HOL-Library.Monad_Syntax"
begin

text \<open>
  \<^verbatim>\<open>sg-ebpf/src/vmlinux.rs\<close>, first part: the bit-field unit \<^verbatim>\<open>__BindgenBitfieldUnit\<close>
  of the kernel type bindings. A unit is its storage, a byte array, which \<^verbatim>\<open>new\<close> wraps; the \<^verbatim>\<open>raw_\<close> variants work on
  memory through a pointer. The endianness of the target (\<^verbatim>\<open>cfg!(target_endian)\<close>) and the
  debug profile (debug assertions and overflow checks) are arguments, and \<^verbatim>\<open>usize\<close> has 64 bits. A panic, or an access
  outside the allocated memory, is \<open>None\<close>. The unit is proved to implement the slicing and
  splicing of a list of bits.
\<close>

section \<open>Target\<close>

record target =
  big_endian :: bool
  debug :: bool

definition debug_assert :: "target \<Rightarrow> bool \<Rightarrow> unit option" where
  "debug_assert t c = (if debug t \<and> \<not> c then None else Some ())"

text \<open>\<^verbatim>\<open>1 << i\<close> on \<^verbatim>\<open>u64\<close>: an overflowing shift panics or masks its amount.\<close>

definition shl1 :: "target \<Rightarrow> nat \<Rightarrow> u64 option" where
  "shl1 t i = (if i < 64 then Some (push_bit i 1) else if debug t then None else Some (push_bit (i mod 64) 1))"

text \<open>Addition on \<^verbatim>\<open>usize\<close> (64 bits): an overflow panics or wraps.\<close>

definition usize_add :: "target \<Rightarrow> nat \<Rightarrow> nat \<Rightarrow> nat option" where
  "usize_add t a b =
     (if a + b < 2 ^ 64 then Some (a + b) else if debug t then None else Some ((a + b) mod 2 ^ 64))"

definition slice_index :: "u8 list \<Rightarrow> nat \<Rightarrow> u8 option" where
  "slice_index s i = (if i < length s then Some (s ! i) else None)"

section \<open>The code\<close>

definition bit_index :: "target \<Rightarrow> nat \<Rightarrow> nat" where
  "bit_index t index = (if big_endian t then 7 - index mod 8 else index mod 8)"

definition extract_bit :: "target \<Rightarrow> u8 \<Rightarrow> nat \<Rightarrow> bool" where
  "extract_bit t byte index = (let mask = push_bit (bit_index t index) 1 in byte AND mask = mask)"

definition bf_get_bit :: "target \<Rightarrow> u8 list \<Rightarrow> nat \<Rightarrow> bool option" where
  "bf_get_bit t s index =
     do {
       debug_assert t (index div 8 < length s);
       byte \<leftarrow> slice_index s (index div 8);
       Some (extract_bit t byte index)
     }"

definition raw_get_bit :: "target \<Rightarrow> nat \<Rightarrow> (nat \<rightharpoonup> u8) \<Rightarrow> nat \<Rightarrow> nat \<Rightarrow> bool option" where
  "raw_get_bit t n mem p index =
     do {
       debug_assert t (index div 8 < n);
       byte \<leftarrow> mem (p + index div 8);
       Some (extract_bit t byte index)
     }"

definition change_bit :: "target \<Rightarrow> u8 \<Rightarrow> nat \<Rightarrow> bool \<Rightarrow> u8" where
  "change_bit t byte index v =
     (let mask = push_bit (bit_index t index) 1 in if v then byte OR mask else byte AND NOT mask)"

definition bf_set_bit :: "target \<Rightarrow> u8 list \<Rightarrow> nat \<Rightarrow> bool \<Rightarrow> u8 list option" where
  "bf_set_bit t s index v =
     do {
       debug_assert t (index div 8 < length s);
       byte \<leftarrow> slice_index s (index div 8);
       Some (s[index div 8 := change_bit t byte index v])
     }"

definition raw_set_bit ::
  "target \<Rightarrow> nat \<Rightarrow> nat \<Rightarrow> (nat \<rightharpoonup> u8) \<Rightarrow> nat \<Rightarrow> bool \<Rightarrow> (nat \<rightharpoonup> u8) option" where
  "raw_set_bit t n p mem index v =
     do {
       debug_assert t (index div 8 < n);
       byte \<leftarrow> mem (p + index div 8);
       Some (mem(p + index div 8 \<mapsto> change_bit t byte index v))
     }"

text \<open>The place of bit \<open>i\<close> of a value of width \<open>w\<close>.\<close>

definition value_index :: "target \<Rightarrow> nat \<Rightarrow> nat \<Rightarrow> nat" where
  "value_index t w i = (if big_endian t then w - 1 - i else i)"

text \<open>The loops of the accessors, over the reading or writing of one bit.\<close>

fun get_loop :: "target \<Rightarrow> (nat \<Rightarrow> bool option) \<Rightarrow> nat \<Rightarrow> nat \<Rightarrow> nat list \<Rightarrow> u64 \<Rightarrow> u64 option" where
  "get_loop t rd off w [] v = Some v"
| "get_loop t rd off w (i # is) v =
     do {
       j \<leftarrow> usize_add t i off;
       b \<leftarrow> rd j;
       if b then do { m \<leftarrow> shl1 t (value_index t w i); get_loop t rd off w is (v OR m) }
       else get_loop t rd off w is v
     }"

fun set_loop ::
  "target \<Rightarrow> ('s \<Rightarrow> nat \<Rightarrow> bool \<Rightarrow> 's option) \<Rightarrow> nat \<Rightarrow> nat \<Rightarrow> u64 \<Rightarrow> nat list \<Rightarrow> 's \<Rightarrow> 's option" where
  "set_loop t wr off w v [] s = Some s"
| "set_loop t wr off w v (i # is) s =
     do {
       m \<leftarrow> shl1 t i;
       j \<leftarrow> usize_add t (value_index t w i) off;
       s' \<leftarrow> wr s j (v AND m = m);
       set_loop t wr off w v is s'
     }"

definition asserts :: "target \<Rightarrow> nat \<Rightarrow> nat \<Rightarrow> nat \<Rightarrow> unit option" where
  "asserts t n off w =
     do {
       debug_assert t (w \<le> 64);
       debug_assert t (off div 8 < n);
       if debug t then do { e \<leftarrow> usize_add t off w; debug_assert t (e div 8 \<le> n) } else Some ()
     }"

definition bf_get :: "target \<Rightarrow> u8 list \<Rightarrow> nat \<Rightarrow> u8 \<Rightarrow> u64 option" where
  "bf_get t s off width =
     (let w = unat width in
      do { asserts t (length s) off w; get_loop t (bf_get_bit t s) off w [0..<w] 0 })"

definition raw_get :: "target \<Rightarrow> nat \<Rightarrow> (nat \<rightharpoonup> u8) \<Rightarrow> nat \<Rightarrow> nat \<Rightarrow> u8 \<Rightarrow> u64 option" where
  "raw_get t n mem p off width =
     (let w = unat width in
      do { asserts t n off w; get_loop t (raw_get_bit t n mem p) off w [0..<w] 0 })"

definition bf_set :: "target \<Rightarrow> u8 list \<Rightarrow> nat \<Rightarrow> u8 \<Rightarrow> u64 \<Rightarrow> u8 list option" where
  "bf_set t s off width v =
     (let w = unat width in
      do { asserts t (length s) off w; set_loop t (bf_set_bit t) off w v [0..<w] s })"

definition raw_set ::
  "target \<Rightarrow> nat \<Rightarrow> (nat \<rightharpoonup> u8) \<Rightarrow> nat \<Rightarrow> nat \<Rightarrow> u8 \<Rightarrow> u64 \<Rightarrow> (nat \<rightharpoonup> u8) option" where
  "raw_set t n mem p off width v =
     (let w = unat width in
      do { asserts t n off w; set_loop t (raw_set_bit t n p) off w v [0..<w] mem })"

section \<open>One bit\<close>

lemma bit_index_less [simp]: "bit_index t i < 8"
  using mod_less_divisor [of 8 i] by (auto simp: bit_index_def)

lemma bit_index_inject: "bit_index t i = bit_index t j \<longleftrightarrow> i mod 8 = j mod 8"
proof -
  have "i mod 8 < 8" "j mod 8 < 8" by simp_all
  then show ?thesis by (auto simp: bit_index_def)
qed

lemma and_exp_eq:
  fixes a :: "'a::len word"
  assumes "n < LENGTH('a)"
  shows "a AND 2 ^ n = 2 ^ n \<longleftrightarrow> bit a n"
proof
  assume "a AND 2 ^ n = 2 ^ n"
  then have "bit (a AND 2 ^ n) n \<longleftrightarrow> bit (2 ^ n :: 'a word) n" by simp
  then show "bit a n" using assms by (simp add: bit_simps)
next
  assume "bit a n"
  then show "a AND 2 ^ n = 2 ^ n"
    by (intro bit_word_eqI) (auto simp: bit_simps)
qed

lemma extract_bit: "extract_bit t b i = bit b (bit_index t i)"
  by (simp add: extract_bit_def Let_def and_exp_eq)

lemma bit_change_bit:
  "bit (change_bit t b i v) n \<longleftrightarrow> (if n = bit_index t i then v else bit b n)"
  using bit_imp_le_length [of b n]
  by (auto simp: change_bit_def Let_def bit_simps)


section \<open>The loops\<close>

lemma shl1_small [simp]: "i < 64 \<Longrightarrow> shl1 t i = Some (2 ^ i)"
  by (simp add: shl1_def)

lemma usize_add_small [simp]: "a + b < 2 ^ 64 \<Longrightarrow> usize_add t a b = Some (a + b)"
  by (simp add: usize_add_def)

lemma debug_assert_True [simp]: "debug_assert t True = Some ()"
  by (simp add: debug_assert_def)

lemma value_index_less: "i < w \<Longrightarrow> value_index t w i < w"
  by (auto simp: value_index_def)

lemma value_index_involution [simp]: "i < w \<Longrightarrow> value_index t w (value_index t w i) = i"
  by (auto simp: value_index_def)

lemma get_loop_bits:
  assumes "\<And>i. i \<in> set is \<Longrightarrow> i < w \<and> rd (i + off) = Some (f (i + off))"
    and "w \<le> 64" "off + w < 2 ^ 64"
  shows "\<exists>r. get_loop t rd off w is v = Some r
           \<and> (\<forall>n. bit r n \<longleftrightarrow> bit v n \<or> (\<exists>i\<in>set is. value_index t w i = n \<and> f (i + off)))"
  using assms(1)
proof (induction "is" arbitrary: v)
  case Nil
  then show ?case by simp
next
  case (Cons i "is")
  have i: "i < w" "rd (i + off) = Some (f (i + off))" using Cons.prems by auto
  have k: "value_index t w i < 64" using value_index_less [OF i(1), of t] assms(2) by simp
  let ?v = "if f (i + off) then v OR 2 ^ value_index t w i else v"
  have step: "get_loop t rd off w (i # is) v = get_loop t rd off w is ?v"
    using i k assms(3) by simp
  obtain r where r: "get_loop t rd off w is ?v = Some r"
    "\<And>n. bit r n \<longleftrightarrow> bit ?v n \<or> (\<exists>j\<in>set is. value_index t w j = n \<and> f (j + off))"
    using Cons.IH [of ?v] Cons.prems by auto
  have "bit ?v n \<longleftrightarrow> bit v n \<or> (value_index t w i = n \<and> f (i + off))" for n
    using k by (auto simp: bit_simps)
  then show ?case using step r by auto
qed

lemma get_loop_cong:
  assumes "\<And>i. i \<in> set is \<Longrightarrow> i + off < 2 ^ 64 \<and> rd (i + off) = rd' (i + off)"
  shows "get_loop t rd off w is v = get_loop t rd' off w is v"
  using assms
proof (induction "is" arbitrary: v)
  case Nil
  then show ?case by simp
next
  case (Cons i "is")
  have "i + off < 2 ^ 64" "rd (i + off) = rd' (i + off)" using Cons.prems [of i] by auto
  moreover have "get_loop t rd off w is u = get_loop t rd' off w is u" for u
    using Cons by simp
  ultimately show ?case by (simp cong: if_cong)
qed

lemma get_loop_None:
  assumes "i \<in> set is" "rd (i + off) = None" "\<And>i. i \<in> set is \<Longrightarrow> i < w"
    and "w \<le> 64" "off + w < 2 ^ 64"
  shows "get_loop t rd off w is v = None"
  using assms(1-3)
proof (induction "is" arbitrary: v)
  case Nil
  then show ?case by simp
next
  case (Cons j "is")
  have "j + off < 2 ^ 64" using Cons.prems(3) [of j] assms(5) by simp
  then show ?case
    using Cons.IH Cons.prems value_index_less [of j w t] assms(4)
    by (cases "rd (j + off)") auto
qed

text \<open>Writing bit after bit through \<open>wr\<close>, seen through a view \<open>vw\<close> of the state.\<close>

lemma set_loop_bits:
  assumes wr: "\<And>s j b. P s \<Longrightarrow> off \<le> j \<Longrightarrow> j < off + w \<Longrightarrow>
      \<exists>s'. wr s j b = Some s' \<and> P s' \<and> (\<forall>k. vw s' k \<longleftrightarrow> (if k = j then b else vw s k))"
    and rng: "\<And>i. i \<in> set is \<Longrightarrow> i < w" and w: "w \<le> 64" "off + w < 2 ^ 64" and s: "P s"
  shows "\<exists>s'. set_loop t wr off w v is s = Some s' \<and> P s'
           \<and> (\<forall>k. vw s' k \<longleftrightarrow> (if off \<le> k \<and> k < off + w \<and> value_index t w (k - off) \<in> set is
                             then bit v (value_index t w (k - off)) else vw s k))"
  using rng s
proof (induction "is" arbitrary: s)
  case Nil
  then show ?case by simp
next
  case (Cons i "is")
  have i: "i < w" using Cons.prems(1) by simp
  then have i64: "i < 64" using w(1) by simp
  let ?j = "value_index t w i + off"
  have j: "off \<le> ?j" "?j < off + w" using value_index_less [OF i, of t] by auto
  obtain s1 where s1: "wr s ?j (bit v i) = Some s1" "P s1"
    "\<And>k. vw s1 k \<longleftrightarrow> (if k = ?j then bit v i else vw s k)"
    using wr [OF Cons.prems(2) j, of "bit v i"] by blast
  obtain s' where s': "set_loop t wr off w v is s1 = Some s'" "P s'"
    "\<And>k. vw s' k \<longleftrightarrow> (if off \<le> k \<and> k < off + w \<and> value_index t w (k - off) \<in> set is
                             then bit v (value_index t w (k - off)) else vw s1 k)"
    using Cons.IH [OF _ s1(2)] Cons.prems(1) by auto
  have step: "set_loop t wr off w v (i # is) s = Some s'"
    using i i64 j w s1(1) s'(1) by (simp add: and_exp_eq)
  have "k = ?j \<longleftrightarrow> off \<le> k \<and> k < off + w \<and> value_index t w (k - off) = i" for k
    using i value_index_less [OF i, of t] by (auto simp: value_index_def)
  then have "vw s' k \<longleftrightarrow> (if off \<le> k \<and> k < off + w \<and> value_index t w (k - off) \<in> set (i # is)
                             then bit v (value_index t w (k - off)) else vw s k)" for k
    using s'(3) [of k] s1(3) [of k] by auto
  then show ?case using step s'(2) by blast
qed

lemma set_loop_sim:
  assumes step: "\<And>s m j b. i0 \<le> j \<Longrightarrow> j < i0 + w \<Longrightarrow> R s m \<Longrightarrow>
      \<exists>s' m'. wr s j b = Some s' \<and> wr' m j b = Some m' \<and> R s' m'"
    and rng: "\<And>i. i \<in> set is \<Longrightarrow> i < w" and w: "w \<le> 64" "i0 + w < 2 ^ 64" and R: "R s m"
  shows "\<exists>s' m'. set_loop t wr i0 w v is s = Some s' \<and> set_loop t wr' i0 w v is m = Some m' \<and> R s' m'"
  using rng R
proof (induction "is" arbitrary: s m)
  case Nil
  then show ?case by simp
next
  case (Cons i "is")
  have i: "i < w" using Cons.prems(1) by simp
  then have i64: "i < 64" using w(1) by simp
  let ?j = "value_index t w i + i0"
  have j: "i0 \<le> ?j" "?j < i0 + w" using value_index_less [OF i, of t] by auto
  obtain s1 m1 where s1: "wr s ?j (bit v i) = Some s1" "wr' m ?j (bit v i) = Some m1" "R s1 m1"
    using step [OF j Cons.prems(2), of "bit v i"] by blast
  have "\<And>k. k \<in> set is \<Longrightarrow> k < w" using Cons.prems by simp
  from Cons.IH [OF this s1(3)] show ?case
    using i i64 j w s1(1,2) by (simp add: and_exp_eq)
qed

lemma set_loop_None:
  assumes None: "\<And>s. P s \<Longrightarrow> wr s (value_index t w i + off) (bit v i) = None"
    and P: "\<And>s j b s'. P s \<Longrightarrow> wr s j b = Some s' \<Longrightarrow> P s'"
    and "i \<in> set is" "\<And>i. i \<in> set is \<Longrightarrow> i < w" "w \<le> 64" "off + w < 2 ^ 64" "P s"
  shows "set_loop t wr off w v is s = None"
  using assms(3,4,7)
proof (induction "is" arbitrary: s)
  case Nil
  then show ?case by simp
next
  case (Cons j "is")
  have j: "j < w" using Cons.prems(2) by simp
  then have j64: "j < 64" using assms(5) by simp
  let ?j = "value_index t w j + off"
  have "?j < off + w" using value_index_less [OF j, of t] by auto
  then have step: "set_loop t wr off w v (j # is) s
      = (case wr s ?j (bit v j) of None \<Rightarrow> None | Some s' \<Rightarrow> set_loop t wr off w v is s')"
    using j j64 assms(6) by (simp add: and_exp_eq split: option.split)
  show ?case
  proof (cases "wr s ?j (bit v j)")
    case None
    then show ?thesis using step by simp
  next
    case (Some s')
    then have "j \<noteq> i" using assms(1) Cons.prems(3) by auto
    then have "set_loop t wr off w v is s' = None"
      using Cons P [OF Cons.prems(3) Some] by simp
    then show ?thesis using step Some by simp
  qed
qed


section \<open>The unit as a list of bits\<close>

text \<open>Bit \<open>j\<close> of the unit, the unit as a list of bits, and the bits of a value of width \<open>w\<close>.\<close>

definition sbit :: "target \<Rightarrow> u8 list \<Rightarrow> nat \<Rightarrow> bool" where
  "sbit t s j = bit (s ! (j div 8)) (bit_index t j)"

definition abs_unit :: "target \<Rightarrow> u8 list \<Rightarrow> bool list" where
  "abs_unit t s = map (sbit t s) [0..<8 * length s]"

definition val_bits :: "target \<Rightarrow> nat \<Rightarrow> u64 \<Rightarrow> bool list" where
  "val_bits t w v = map (\<lambda>i. bit v (value_index t w i)) [0..<w]"

definition splice :: "'a list \<Rightarrow> nat \<Rightarrow> 'a list \<Rightarrow> 'a list" where
  "splice xs i ys = take i xs @ ys @ drop (i + length ys) xs"

definition holds_at :: "(nat \<rightharpoonup> u8) \<Rightarrow> nat \<Rightarrow> u8 list \<Rightarrow> bool" where
  "holds_at mem p s = (\<forall>i<length s. mem (p + i) = Some (s ! i))"

lemma abs_unit_eq_iff:
  "abs_unit t s = bs \<longleftrightarrow>
     length bs = 8 * length s \<and> (\<forall>j<8 * length s. sbit t s j = bs ! j)"
  unfolding abs_unit_def by (subst list_eq_iff_nth_eq) auto

lemma nth_splice:
  "i + length ys \<le> length xs \<Longrightarrow> j < length xs \<Longrightarrow>
   splice xs i ys ! j = (if i \<le> j \<and> j < i + length ys then ys ! (j - i) else xs ! j)"
  by (auto simp: splice_def nth_append min_def)

lemma sbit_inject:
  assumes "length s = length s'" "\<And>j. j < 8 * length s \<Longrightarrow> sbit t s j \<longleftrightarrow> sbit t s' j"
  shows "s = s'"
proof (rule nth_equalityI [OF assms(1)])
  fix i assume i: "i < length s"
  show "s ! i = s' ! i"
  proof (rule bit_word_eqI)
    fix n :: nat assume "n < LENGTH(8)"
    then have n: "n < 8" by simp
    define k where "k = (if big_endian t then 7 - n else n)"
    have k: "k < 8" using n by (auto simp: k_def)
    then have "(8 * i + k) mod 8 = k" "(8 * i + k) div 8 = i" by auto
    moreover have "8 * i + k < 8 * length s" using k i by linarith
    moreover have "(if big_endian t then 7 - k else k) = n" using n by (simp add: k_def)
    ultimately have j: "(8 * i + k) div 8 = i" "bit_index t (8 * i + k) = n" "8 * i + k < 8 * length s"
      by (simp_all add: bit_index_def split: if_splits)
    show "bit (s ! i) n \<longleftrightarrow> bit (s' ! i) n"
      using assms(2) [OF j(3)] by (simp add: sbit_def j(1,2) del: One_nat_def)
  qed
qed

lemma bf_get_bit_in:
  "j < 8 * length s \<Longrightarrow> bf_get_bit t s j = Some (sbit t s j)"
  by (auto simp: bf_get_bit_def debug_assert_def slice_index_def extract_bit sbit_def)

lemma bf_get_bit_out:
  "8 * length s \<le> j \<Longrightarrow> bf_get_bit t s j = None"
  by (auto simp: bf_get_bit_def debug_assert_def slice_index_def)

lemma bf_set_bit_in:
  assumes "j < 8 * length s"
  shows "\<exists>s'. bf_set_bit t s j b = Some s' \<and> length s' = length s
           \<and> (\<forall>k. sbit t s' k \<longleftrightarrow> (if k = j then b else sbit t s k))"
proof -
  have j: "j div 8 < length s" using assms by auto
  let ?s = "s[j div 8 := change_bit t (s ! (j div 8)) j b]"
  have "sbit t ?s k \<longleftrightarrow> (if k = j then b else sbit t s k)" for k
  proof (cases "k div 8 = j div 8")
    case True
    then have "bit_index t k = bit_index t j \<longleftrightarrow> k = j"
      by (metis bit_index_inject div_mult_mod_eq)
    then show ?thesis using True j by (auto simp: sbit_def bit_change_bit)
  next
    case False
    then show ?thesis using j by (auto simp: sbit_def)
  qed
  moreover have "bf_set_bit t s j b = Some ?s"
    using j by (simp add: bf_set_bit_def slice_index_def)
  ultimately show ?thesis by simp
qed

lemma bf_set_bit_length: "bf_set_bit t s j b = Some s' \<Longrightarrow> length s' = length s"
  by (auto simp: bf_set_bit_def slice_index_def split: bind_splits if_splits)

lemma bf_set_bit_out: "8 * length s \<le> j \<Longrightarrow> bf_set_bit t s j b = None"
  by (auto simp: bf_set_bit_def debug_assert_def slice_index_def)

lemma asserts_in [simp]:
  assumes "0 < w" "w \<le> 64" "off + w \<le> 8 * n" "off + w < 2 ^ 64"
  shows "asserts t n off w = Some ()"
proof -
  have "off div 8 < n" "(off + w) div 8 \<le> n" using assms by auto
  then show ?thesis using assms by (simp add: asserts_def)
qed

lemma asserts_cases: "asserts t n off w = None \<or> asserts t n off w = Some ()"
  by (cases "asserts t n off w") auto


section \<open>Refinement\<close>

lemma bf_get_in:
  assumes "0 < w" "w \<le> 64" "off + w < 2 ^ 64" "off + w \<le> 8 * length s" and w: "unat width = w"
  shows "\<exists>v. bf_get t s off width = Some v
           \<and> (\<forall>n. bit v n \<longleftrightarrow> n < w \<and> sbit t s (value_index t w n + off))"
proof -
  have "\<exists>r. get_loop t (bf_get_bit t s) off w [0..<w] 0 = Some r
      \<and> (\<forall>n. bit r n \<longleftrightarrow> bit (0 :: u64) n
             \<or> (\<exists>i\<in>set [0..<w]. value_index t w i = n \<and> sbit t s (i + off)))"
    by (rule get_loop_bits) (use assms in \<open>auto simp: bf_get_bit_in\<close>)
  moreover have "(\<exists>i\<in>set [0..<w]. value_index t w i = n \<and> sbit t s (i + off))
      \<longleftrightarrow> n < w \<and> sbit t s (value_index t w n + off)" for n
    using value_index_less [of _ w t] by (auto intro!: bexI [of _ "value_index t w n"])
  ultimately show ?thesis
    using assms(1-4) by (simp add: bf_get_def w)
qed

lemma bf_get_out:
  assumes "0 < w" "w \<le> 64" "off + w < 2 ^ 64" "8 * length s < off + w" and w: "unat width = w"
  shows "bf_get t s off width = None"
proof -
  have "get_loop t (bf_get_bit t s) off w [0..<w] 0 = None"
    by (rule get_loop_None [of "w - 1"]) (use assms in \<open>auto intro!: bf_get_bit_out\<close>)
  then show ?thesis
    using asserts_cases [of t "length s" off w] by (auto simp: bf_get_def w)
qed

lemma bf_set_in:
  assumes "0 < w" "w \<le> 64" "off + w < 2 ^ 64" "off + w \<le> 8 * length s" and w: "unat width = w"
  shows "\<exists>s'. bf_set t s off width v = Some s' \<and> length s' = length s
           \<and> (\<forall>k. sbit t s' k \<longleftrightarrow> (if off \<le> k \<and> k < off + w
                                    then bit v (value_index t w (k - off)) else sbit t s k))"
proof -
  have "\<exists>s'. set_loop t (bf_set_bit t) off w v [0..<w] s = Some s' \<and> length s' = length s
      \<and> (\<forall>k. sbit t s' k \<longleftrightarrow> (if off \<le> k \<and> k < off + w \<and> value_index t w (k - off) \<in> set [0..<w]
                               then bit v (value_index t w (k - off)) else sbit t s k))"
  proof (rule set_loop_bits)
    fix r :: "u8 list" and j b
    assume "length r = length s" "off \<le> j" "j < off + w"
    then have "j < 8 * length r" using assms(4) by simp
    from bf_set_bit_in [OF this, of t b] show
      "\<exists>s'. bf_set_bit t r j b = Some s' \<and> length s' = length s
          \<and> (\<forall>k. sbit t s' k = (if k = j then b else sbit t r k))"
      using \<open>length r = length s\<close> by simp
  qed (use assms in auto)
  moreover have "off \<le> k \<and> k < off + w \<and> value_index t w (k - off) \<in> set [0..<w]
      \<longleftrightarrow> off \<le> k \<and> k < off + w" for k
    using value_index_less [of "k - off" w t] by auto
  ultimately show ?thesis
    using assms(1-4) by (simp add: bf_set_def w)
qed

lemma bf_set_out:
  assumes "0 < w" "w \<le> 64" "off + w < 2 ^ 64" "8 * length s < off + w" and w: "unat width = w"
  shows "bf_set t s off width v = None"
proof -
  have "set_loop t (bf_set_bit t) off w v [0..<w] s = None"
  proof (rule set_loop_None [where P = "\<lambda>r. length r = length s" and i = "value_index t w (w - 1)"])
    fix r :: "u8 list" assume "length r = length s"
    then show "bf_set_bit t r (value_index t w (value_index t w (w - 1)) + off)
        (bit v (value_index t w (w - 1))) = None"
      using assms(1,4) by (intro bf_set_bit_out) simp
  next
    show "value_index t w (w - 1) \<in> set [0..<w]"
      using value_index_less [of "w - 1" w t] assms(1) by simp
  qed (use assms in \<open>auto dest: bf_set_bit_length\<close>)
  then show ?thesis
    using asserts_cases [of t "length s" off w] by (auto simp: bf_set_def w)
qed

lemma length_abs_unit [simp]: "length (abs_unit t s) = 8 * length s"
  by (simp add: abs_unit_def)

lemma length_val_bits [simp]: "length (val_bits t w v) = w"
  by (simp add: val_bits_def)

lemma get_slice:
  assumes "off + w \<le> 8 * length s"
    and bits: "\<forall>n. bit v n \<longleftrightarrow> n < w \<and> sbit t s (value_index t w n + off)"
  shows "val_bits t w v = take w (drop off (abs_unit t s))"
proof (rule nth_equalityI)
  fix i assume "i < length (val_bits t w v)"
  then have i: "i < w" by simp
  then have "val_bits t w v ! i = sbit t s (i + off)"
    using bits value_index_less [OF i, of t] by (simp add: val_bits_def)
  also have "\<dots> = take w (drop off (abs_unit t s)) ! i"
    using i assms(1) by (simp add: abs_unit_def add.commute)
  finally show "val_bits t w v ! i = take w (drop off (abs_unit t s)) ! i" .
qed (use assms(1) in simp)

lemma set_splice:
  assumes "off + w \<le> 8 * length s" "length s' = length s"
    and bits: "\<forall>k. sbit t s' k \<longleftrightarrow> (if off \<le> k \<and> k < off + w
                          then bit v (value_index t w (k - off)) else sbit t s k)"
  shows "abs_unit t s' = splice (abs_unit t s) off (val_bits t w v)"
  unfolding abs_unit_eq_iff
proof (intro conjI allI impI)
  show "length (splice (abs_unit t s) off (val_bits t w v)) = 8 * length s'"
    using assms(1,2) by (simp add: splice_def)
  fix j assume j: "j < 8 * length s'"
  then show "sbit t s' j = splice (abs_unit t s) off (val_bits t w v) ! j"
    using assms(1,2) bits by (simp add: nth_splice) (auto simp: val_bits_def abs_unit_def)
qed

lemma less_2p_bits: "(\<forall>n. bit (v :: u64) n \<longrightarrow> n < w) \<Longrightarrow> take_bit w v = v"
  by (rule bit_word_eqI) (auto simp: bit_simps)

text \<open>
  C20. The bit-field unit implements a list of bits, on both endiannesses and in both build
  profiles. For a field of 1 to 64 bits: reading and writing panic exactly when the field does
  not fit the storage; a read returns the slice of the unit's bits at the field (and no bit
  above the field's width); a write replaces exactly that slice by the low bits of the value
  and leaves the storage's length alone.
\<close>
theorem bitfield_unit_refines:
  assumes "0 < unat width" "unat width \<le> 64" "off + unat width < 2 ^ 64"
  shows "(bf_get t s off width = None \<longleftrightarrow> 8 * length s < off + unat width)
    \<and> (bf_set t s off width v = None \<longleftrightarrow> 8 * length s < off + unat width)
    \<and> (\<forall>r. bf_get t s off width = Some r \<longrightarrow>
         val_bits t (unat width) r = take (unat width) (drop off (abs_unit t s))
         \<and> take_bit (unat width) r = r)
    \<and> (\<forall>s'. bf_set t s off width v = Some s' \<longrightarrow>
         length s' = length s
         \<and> abs_unit t s' = splice (abs_unit t s) off (val_bits t (unat width) v))"
proof (cases "8 * length s < off + unat width")
  case True
  then show ?thesis
    using bf_get_out [OF assms True refl, of t] bf_set_out [OF assms True refl, of t v] by simp
next
  case False
  then have le: "off + unat width \<le> 8 * length s" by simp
  obtain r where r: "bf_get t s off width = Some r"
    "\<forall>n. bit r n \<longleftrightarrow> n < unat width \<and> sbit t s (value_index t (unat width) n + off)"
    using bf_get_in [OF assms le refl, of t] by auto
  obtain s' where s': "bf_set t s off width v = Some s'" "length s' = length s"
    "\<forall>k. sbit t s' k \<longleftrightarrow> (if off \<le> k \<and> k < off + unat width
        then bit v (value_index t (unat width) (k - off)) else sbit t s k)"
    using bf_set_in [OF assms le refl, of t v] by auto
  have "take_bit (unat width) r = r" using r(2) by (intro less_2p_bits) simp
  then show ?thesis
    using False r(1) s'(1,2) get_slice [OF le r(2)] set_splice [OF le s'(2,3)] by simp
qed

theorem bitfield_unit_refines_witness:
  "(bf_get \<lparr>big_endian = False, debug = True\<rparr> [0x45] 4 5 = None)
   \<and> abs_unit \<lparr>big_endian = False, debug = True\<rparr> (the (bf_set \<lparr>big_endian = False, debug = True\<rparr> [0x45, 0] 4 4 6))
     = splice (abs_unit \<lparr>big_endian = False, debug = True\<rparr> [0x45, 0]) 4 [False, True, True, False]"
proof
  show "bf_get \<lparr>big_endian = False, debug = True\<rparr> [0x45] 4 5 = None"
    using bitfield_unit_refines [of 5 4 "\<lparr>big_endian = False, debug = True\<rparr>" "[0x45]"] by simp
  let ?t = "\<lparr>big_endian = False, debug = True\<rparr>"
  have "unat (4 :: u8) = 4" by simp
  then have w: "0 < unat (4 :: u8)" "unat (4 :: u8) \<le> 64" "4 + unat (4 :: u8) < 2 ^ 64" by simp_all
  note field = bitfield_unit_refines [OF w, of ?t "[0x45, 0]" 6]
  have "bf_set ?t [0x45, 0] 4 4 6 \<noteq> None" using field [THEN conjunct2, THEN conjunct1] by simp
  then obtain s' where s': "bf_set ?t [0x45, 0] 4 4 6 = Some s'" by blast
  have "val_bits ?t (unat (4 :: u8)) 6 = [False, True, True, False]" by code_simp
  then show "abs_unit ?t (the (bf_set ?t [0x45, 0] 4 4 6))
      = splice (abs_unit ?t [0x45, 0]) 4 [False, True, True, False]"
    using field [THEN conjunct2, THEN conjunct2, THEN conjunct2] s' by simp
qed


section \<open>Access through a pointer\<close>

lemma raw_get_bit_holds:
  "holds_at mem p s \<Longrightarrow> j < 8 * length s \<Longrightarrow>
   raw_get_bit t (length s) mem p j = bf_get_bit t s j"
  by (auto simp: raw_get_bit_def bf_get_bit_def slice_index_def holds_at_def debug_assert_def)

lemma raw_set_bit_holds:
  assumes "holds_at mem p s" "j < 8 * length s"
  shows "\<exists>s' mem'. bf_set_bit t s j b = Some s' \<and> raw_set_bit t (length s) p mem j b = Some mem'
           \<and> length s' = length s \<and> holds_at mem' p s'
           \<and> (\<forall>a. a < p \<or> p + length s \<le> a \<longrightarrow> mem' a = mem a)"
proof -
  have j: "j div 8 < length s" using assms(2) by auto
  then show ?thesis
    using assms(1) by (auto simp: raw_set_bit_def bf_set_bit_def slice_index_def holds_at_def nth_list_update)
qed

lemma raw_get_holds:
  assumes "holds_at mem p s" "0 < unat width" "unat width \<le> 64" "off + unat width < 2 ^ 64"
    "off + unat width \<le> 8 * length s"
  shows "raw_get t (length s) mem p off width = bf_get t s off width"
proof -
  have "get_loop t (raw_get_bit t (length s) mem p) off (unat width) [0..<unat width] 0
      = get_loop t (bf_get_bit t s) off (unat width) [0..<unat width] 0"
    by (rule get_loop_cong) (use assms in \<open>auto intro!: raw_get_bit_holds\<close>)
  then show ?thesis by (simp add: raw_get_def bf_get_def)
qed

lemma raw_set_holds:
  assumes "holds_at mem p s" "0 < unat width" "unat width \<le> 64" "off + unat width < 2 ^ 64"
    "off + unat width \<le> 8 * length s"
  shows "\<exists>s' mem'. bf_set t s off width v = Some s' \<and> raw_set t (length s) mem p off width v = Some mem'
           \<and> length s' = length s \<and> holds_at mem' p s'
           \<and> (\<forall>a. a < p \<or> p + length s \<le> a \<longrightarrow> mem' a = mem a)"
proof -
  let ?R = "\<lambda>r m. length r = length s \<and> holds_at m p r
              \<and> (\<forall>a. a < p \<or> p + length s \<le> a \<longrightarrow> m a = mem a)"
  have "\<exists>s' m'. set_loop t (bf_set_bit t) off (unat width) v [0..<unat width] s = Some s'
      \<and> set_loop t (raw_set_bit t (length s) p) off (unat width) v [0..<unat width] mem = Some m' \<and> ?R s' m'"
  proof (rule set_loop_sim)
    fix r :: "u8 list" and m j b
    assume j: "off \<le> j" "j < off + unat width" and R: "?R r m"
    then have "holds_at m p r" "j < 8 * length r" using assms(5) by auto
    from raw_set_bit_holds [OF this, of t b] obtain r' m' where
      "bf_set_bit t r j b = Some r'" "raw_set_bit t (length r) p m j b = Some m'"
      "length r' = length r" "holds_at m' p r'" "\<forall>a. a < p \<or> p + length r \<le> a \<longrightarrow> m' a = m a"
      by blast
    then show "\<exists>s' m'. bf_set_bit t r j b = Some s' \<and> raw_set_bit t (length s) p m j b = Some m' \<and> ?R s' m'"
      using R by auto
  qed (use assms in auto)
  then show ?thesis
    using assms by (auto simp: bf_set_def raw_set_def)
qed

text \<open>
  The \<open>raw_\<close> accessors on a pointer to memory that holds the unit behave like the safe ones
  on its storage: the same value is read, a write makes the memory hold the storage the safe
  write gives, and no byte of memory outside the unit changes.
\<close>
theorem raw_access_agrees:
  assumes "holds_at mem p s" "0 < unat width" "unat width \<le> 64"
    "off + unat width < 2 ^ 64" "off + unat width \<le> 8 * length s"
  shows "raw_get t (length s) mem p off width = bf_get t s off width
    \<and> (\<exists>s' mem'. bf_set t s off width v = Some s'
         \<and> raw_set t (length s) mem p off width v = Some mem' \<and> holds_at mem' p s'
         \<and> (\<forall>a. a < p \<or> p + length s \<le> a \<longrightarrow> mem' a = mem a))"
  using raw_get_holds [OF assms, of t] raw_set_holds [OF assms, of t v] by blast

theorem raw_access_agrees_witness:
  "\<exists>mem'. raw_set \<lparr>big_endian = False, debug = True\<rparr> 1 [7 \<mapsto> 0x45, 8 \<mapsto> 3] 7 4 4 6 = Some mem' \<and> mem' 8 = Some 3"
proof -
  let ?m = "[7 \<mapsto> 0x45, 8 \<mapsto> (3 :: u8)]"
  have "holds_at ?m 7 [0x45]" by (simp add: holds_at_def)
  from raw_access_agrees [OF this, of 4 4 "\<lparr>big_endian = False, debug = True\<rparr>" 6]
  show ?thesis by auto
qed

section \<open>Laws of one field\<close>

definition fits :: "nat \<Rightarrow> nat \<Rightarrow> u8 \<Rightarrow> bool" where
  "fits n off width \<longleftrightarrow> 0 < unat width \<and> unat width \<le> 64 \<and> off + unat width \<le> 8 * n \<and> n < 2 ^ 60"

lemma fits_bounds:
  assumes "fits (length s) off width"
  shows "0 < unat width" "unat width \<le> 64" "off + unat width < 2 ^ 64"
    "off + unat width \<le> 8 * length s"
  using assms by (auto simp: fits_def)

lemmas fits_get = bf_get_in [OF fits_bounds refl]
  and fits_set = bf_set_in [OF fits_bounds refl]

lemma bf_get_cong:
  assumes "fits (length s) off width" "length s' = length s"
    and "\<And>j. off \<le> j \<Longrightarrow> j < off + unat width \<Longrightarrow> sbit t s' j \<longleftrightarrow> sbit t s j"
  shows "bf_get t s' off width = bf_get t s off width"
proof -
  have f': "fits (length s') off width" using assms(1,2) by simp
  obtain r where r: "bf_get t s off width = Some r"
    "\<forall>n. bit r n \<longleftrightarrow> n < unat width \<and> sbit t s (value_index t (unat width) n + off)"
    using fits_get [OF assms(1,1,1,1), of t] by auto
  obtain r' where r': "bf_get t s' off width = Some r'"
    "\<forall>n. bit r' n \<longleftrightarrow> n < unat width \<and> sbit t s' (value_index t (unat width) n + off)"
    using fits_get [OF f' f' f' f', of t] by auto
  have "bit r n \<longleftrightarrow> bit r' n" for n
    using r(2) r'(2) assms(3) [of "value_index t (unat width) n + off"] value_index_less [of n "unat width" t]
    by auto
  then have "r = r'" by (auto intro: bit_word_eqI)
  then show ?thesis using r(1) r'(1) by simp
qed

lemma bf_put_get:
  assumes f: "fits (length s) off width" and set: "bf_set t s off width v = Some s'"
  shows "bf_get t s' off width = Some (take_bit (unat width) v) \<and> length s' = length s"
proof -
  have s': "length s' = length s" "\<forall>k. sbit t s' k \<longleftrightarrow> (if off \<le> k \<and> k < off + unat width
      then bit v (value_index t (unat width) (k - off)) else sbit t s k)"
    using fits_set [OF f f f f, of t v] set by auto
  then have f': "fits (length s') off width" using f by simp
  obtain r where r: "bf_get t s' off width = Some r"
    "\<forall>n. bit r n \<longleftrightarrow> n < unat width \<and> sbit t s' (value_index t (unat width) n + off)"
    using fits_get [OF f' f' f' f', of t] by auto
  have "r = take_bit (unat width) v"
    using r(2) s'(2) value_index_less [of _ "unat width" t]
    by (intro bit_word_eqI) (auto simp: bit_take_bit_iff)
  then show ?thesis using r(1) s'(1) by simp
qed

lemma bf_get_put:
  assumes f: "fits (length s) off width" and get: "bf_get t s off width = Some v"
    and v: "take_bit (unat width) u = v"
  shows "bf_set t s off width u = Some s"
proof -
  obtain s' where s': "bf_set t s off width u = Some s'" "length s' = length s"
    "\<forall>k. sbit t s' k \<longleftrightarrow> (if off \<le> k \<and> k < off + unat width
      then bit u (value_index t (unat width) (k - off)) else sbit t s k)"
    using fits_set [OF f f f f, of t u] by auto
  have r: "\<forall>n. bit v n \<longleftrightarrow> n < unat width \<and> sbit t s (value_index t (unat width) n + off)"
    using fits_get [OF f f f f, of t] get by auto
  have "sbit t s' j \<longleftrightarrow> sbit t s j" for j
  proof (cases "off \<le> j \<and> j < off + unat width")
    case True
    then have i: "j - off < unat width" by auto
    have "bit u (value_index t (unat width) (j - off)) \<longleftrightarrow> bit v (value_index t (unat width) (j - off))"
      using v value_index_less [OF i, of t] by (auto simp: bit_take_bit_iff)
    also have "\<dots> \<longleftrightarrow> sbit t s j"
      using r True value_index_less [OF i, of t] i by simp
    finally show ?thesis using s'(3) True by simp
  qed (use s'(3) in auto)
  then have "s' = s" using s'(2) by (intro sbit_inject) auto
  then show ?thesis using s'(1) by simp
qed

lemma bf_put_put:
  assumes f: "fits (length s) off width" and set: "bf_set t s off width v = Some s'"
  shows "bf_set t s' off width u = bf_set t s off width u"
proof -
  have s': "length s' = length s" "\<forall>k. sbit t s' k \<longleftrightarrow> (if off \<le> k \<and> k < off + unat width
      then bit v (value_index t (unat width) (k - off)) else sbit t s k)"
    using fits_set [OF f f f f, of t v] set by auto
  then have f': "fits (length s') off width" using f by simp
  obtain a where a: "bf_set t s off width u = Some a" "length a = length s"
    "\<forall>k. sbit t a k \<longleftrightarrow> (if off \<le> k \<and> k < off + unat width
      then bit u (value_index t (unat width) (k - off)) else sbit t s k)"
    using fits_set [OF f f f f, of t u] by auto
  obtain b where b: "bf_set t s' off width u = Some b" "length b = length s'"
    "\<forall>k. sbit t b k \<longleftrightarrow> (if off \<le> k \<and> k < off + unat width
      then bit u (value_index t (unat width) (k - off)) else sbit t s' k)"
    using fits_set [OF f' f' f' f', of t u] by auto
  have "b = a" using a(2,3) b(2,3) s' by (intro sbit_inject [of _ _ t]) auto
  then show ?thesis using a(1) b(1) by simp
qed

lemma bf_put_other:
  assumes f: "fits (length s) off width" "fits (length s) off' width'"
    and set: "bf_set t s off width v = Some s'"
    and apart: "off + unat width \<le> off' \<or> off' + unat width' \<le> off"
  shows "bf_get t s' off' width' = bf_get t s off' width'"
  using fits_set [OF f(1,1,1,1), of t v] set apart by (intro bf_get_cong [OF f(2)]) auto

lemma bf_total:
  assumes "fits (length s) off width"
  shows "\<exists>r. bf_get t s off width = Some r" "\<exists>s'. bf_set t s off width v = Some s'"
  using fits_get [OF assms assms assms assms, of t] fits_set [OF assms assms assms assms, of t v] by auto

end
