(* ===== verification/SG_Headers.thy ===== *)
theory SG_Headers
  imports SG_Frame SG_Bitfield
begin

text \<open>
  \<^verbatim>\<open>sg-ebpf/src/vmlinux.rs\<close>, second part: the kernel's header structs with their
  \<^verbatim>\<open>repr(C)\<close> layout and the bit-field accessors of \<^verbatim>\<open>iphdr\<close> and \<^verbatim>\<open>tcphdr\<close>, each a
  definition of its own as in the bindings (\<^verbatim>\<open>f\<close>, \<^verbatim>\<open>set_f\<close>, \<^verbatim>\<open>f_raw\<close>, \<^verbatim>\<open>set_f_raw\<close>).
  Both families of accessors are proved to satisfy the laws of the locale \<open>header_fields\<close>.
\<close>

section \<open>Structs\<close>

record xdp_md =
  md_data :: u32
  md_data_end :: u32
  md_data_meta :: u32
  md_ingress_ifindex :: u32
  md_rx_queue_index :: u32
  md_egress_ifindex :: u32

record ethhdr =
  h_dest :: "u8 list"
  h_source :: "u8 list"
  h_proto :: u16

text \<open>
  The union of \<^verbatim>\<open>iphdr\<close> is its eight bytes, read through one of two structs that have the
  same two fields.
\<close>

record iphdr_ty_1_1 =
  anon_saddr :: u32
  anon_daddr :: u32

record iphdr_ty_1_2 =
  addrs_saddr :: u32
  addrs_daddr :: u32

record iphdr =
  ip_bitfield_1 :: "u8 list"
  ip_tos :: u8
  ip_tot_len :: u16
  ip_id :: u16
  ip_frag_off :: u16
  ip_ttl :: u8
  ip_protocol :: u8
  ip_check :: u16
  ip_anon_1 :: "u8 list"

record tcphdr =
  tcp_source :: u16
  tcp_dest :: u16
  tcp_seq :: u32
  tcp_ack_seq :: u32
  tcp_bitfield_1 :: "u8 list"
  tcp_window :: u16
  tcp_check :: u16
  tcp_urg_ptr :: u16

record udphdr =
  udp_source :: u16
  udp_dest :: u16
  udp_len :: u16
  udp_check :: u16

text \<open>Size and alignment of the fields, the zero-sized \<^verbatim>\<open>_bitfield_align_1\<close> included.\<close>

definition xdp_md_fields :: "(nat \<times> nat) list" where
  "xdp_md_fields = replicate 6 (4, 4)"

definition ethhdr_fields :: "(nat \<times> nat) list" where
  "ethhdr_fields = [(6, 1), (6, 1), (2, 2)]"

definition iphdr_fields :: "(nat \<times> nat) list" where
  "iphdr_fields = [(0, 1), (1, 1), (1, 1), (2, 2), (2, 2), (2, 2), (1, 1), (1, 1), (2, 2), (8, 4)]"

definition tcphdr_fields :: "(nat \<times> nat) list" where
  "tcphdr_fields = [(2, 2), (2, 2), (4, 4), (4, 4), (0, 1), (2, 1), (2, 2), (2, 2), (2, 2)]"

definition udphdr_fields :: "(nat \<times> nat) list" where
  "udphdr_fields = replicate 4 (2, 2)"

text \<open>The address of the bit-field unit of a struct at \<open>this\<close>.\<close>

definition iphdr_unit_addr :: "nat \<Rightarrow> nat" where
  "iphdr_unit_addr this = this + repr_c_offsets 0 iphdr_fields ! 1"

definition tcphdr_unit_addr :: "nat \<Rightarrow> nat" where
  "tcphdr_unit_addr this = this + repr_c_offsets 0 tcphdr_fields ! 5"

lemma unit_addrs [simp]: "iphdr_unit_addr p = p" "tcphdr_unit_addr p = p + 12"
  by (simp_all add: iphdr_unit_addr_def iphdr_fields_def tcphdr_unit_addr_def tcphdr_fields_def
      align_up_def)

section \<open>Accessors of \<^verbatim>\<open>iphdr\<close>\<close>

definition ip_ihl :: "target \<Rightarrow> iphdr \<Rightarrow> u8 option" where
  "ip_ihl t h = map_option ucast (bf_get t (ip_bitfield_1 h) 0 4)"

definition ip_set_ihl :: "target \<Rightarrow> iphdr \<Rightarrow> u8 \<Rightarrow> iphdr option" where
  "ip_set_ihl t h v = map_option (\<lambda>u. h\<lparr>ip_bitfield_1 := u\<rparr>) (bf_set t (ip_bitfield_1 h) 0 4 (ucast v))"

definition ip_ihl_raw :: "target \<Rightarrow> (nat \<rightharpoonup> u8) \<Rightarrow> nat \<Rightarrow> u8 option" where
  "ip_ihl_raw t m this = map_option ucast (raw_get t 1 m (iphdr_unit_addr this) 0 4)"

definition ip_set_ihl_raw :: "target \<Rightarrow> (nat \<rightharpoonup> u8) \<Rightarrow> nat \<Rightarrow> u8 \<Rightarrow> (nat \<rightharpoonup> u8) option" where
  "ip_set_ihl_raw t m this v = raw_set t 1 m (iphdr_unit_addr this) 0 4 (ucast v)"

definition ip_version :: "target \<Rightarrow> iphdr \<Rightarrow> u8 option" where
  "ip_version t h = map_option ucast (bf_get t (ip_bitfield_1 h) 4 4)"

definition ip_set_version :: "target \<Rightarrow> iphdr \<Rightarrow> u8 \<Rightarrow> iphdr option" where
  "ip_set_version t h v = map_option (\<lambda>u. h\<lparr>ip_bitfield_1 := u\<rparr>) (bf_set t (ip_bitfield_1 h) 4 4 (ucast v))"

definition ip_version_raw :: "target \<Rightarrow> (nat \<rightharpoonup> u8) \<Rightarrow> nat \<Rightarrow> u8 option" where
  "ip_version_raw t m this = map_option ucast (raw_get t 1 m (iphdr_unit_addr this) 4 4)"

definition ip_set_version_raw :: "target \<Rightarrow> (nat \<rightharpoonup> u8) \<Rightarrow> nat \<Rightarrow> u8 \<Rightarrow> (nat \<rightharpoonup> u8) option" where
  "ip_set_version_raw t m this v = raw_set t 1 m (iphdr_unit_addr this) 4 4 (ucast v)"

definition ip_new_bitfield_1 :: "target \<Rightarrow> u8 \<Rightarrow> u8 \<Rightarrow> u8 list option" where
  "ip_new_bitfield_1 t ihl version =
     do {
       u \<leftarrow> bf_set t (replicate 1 0) 0 4 (ucast ihl);
       bf_set t u 4 4 (ucast version)
     }"

section \<open>Accessors of \<^verbatim>\<open>tcphdr\<close>\<close>

definition tcp_res1 :: "target \<Rightarrow> tcphdr \<Rightarrow> u16 option" where
  "tcp_res1 t h = map_option ucast (bf_get t (tcp_bitfield_1 h) 0 4)"

definition tcp_set_res1 :: "target \<Rightarrow> tcphdr \<Rightarrow> u16 \<Rightarrow> tcphdr option" where
  "tcp_set_res1 t h v = map_option (\<lambda>u. h\<lparr>tcp_bitfield_1 := u\<rparr>) (bf_set t (tcp_bitfield_1 h) 0 4 (ucast v))"

definition tcp_res1_raw :: "target \<Rightarrow> (nat \<rightharpoonup> u8) \<Rightarrow> nat \<Rightarrow> u16 option" where
  "tcp_res1_raw t m this = map_option ucast (raw_get t 2 m (tcphdr_unit_addr this) 0 4)"

definition tcp_set_res1_raw :: "target \<Rightarrow> (nat \<rightharpoonup> u8) \<Rightarrow> nat \<Rightarrow> u16 \<Rightarrow> (nat \<rightharpoonup> u8) option" where
  "tcp_set_res1_raw t m this v = raw_set t 2 m (tcphdr_unit_addr this) 0 4 (ucast v)"

definition tcp_doff :: "target \<Rightarrow> tcphdr \<Rightarrow> u16 option" where
  "tcp_doff t h = map_option ucast (bf_get t (tcp_bitfield_1 h) 4 4)"

definition tcp_set_doff :: "target \<Rightarrow> tcphdr \<Rightarrow> u16 \<Rightarrow> tcphdr option" where
  "tcp_set_doff t h v = map_option (\<lambda>u. h\<lparr>tcp_bitfield_1 := u\<rparr>) (bf_set t (tcp_bitfield_1 h) 4 4 (ucast v))"

definition tcp_doff_raw :: "target \<Rightarrow> (nat \<rightharpoonup> u8) \<Rightarrow> nat \<Rightarrow> u16 option" where
  "tcp_doff_raw t m this = map_option ucast (raw_get t 2 m (tcphdr_unit_addr this) 4 4)"

definition tcp_set_doff_raw :: "target \<Rightarrow> (nat \<rightharpoonup> u8) \<Rightarrow> nat \<Rightarrow> u16 \<Rightarrow> (nat \<rightharpoonup> u8) option" where
  "tcp_set_doff_raw t m this v = raw_set t 2 m (tcphdr_unit_addr this) 4 4 (ucast v)"

definition tcp_fin :: "target \<Rightarrow> tcphdr \<Rightarrow> u16 option" where
  "tcp_fin t h = map_option ucast (bf_get t (tcp_bitfield_1 h) 8 1)"

definition tcp_set_fin :: "target \<Rightarrow> tcphdr \<Rightarrow> u16 \<Rightarrow> tcphdr option" where
  "tcp_set_fin t h v = map_option (\<lambda>u. h\<lparr>tcp_bitfield_1 := u\<rparr>) (bf_set t (tcp_bitfield_1 h) 8 1 (ucast v))"

definition tcp_fin_raw :: "target \<Rightarrow> (nat \<rightharpoonup> u8) \<Rightarrow> nat \<Rightarrow> u16 option" where
  "tcp_fin_raw t m this = map_option ucast (raw_get t 2 m (tcphdr_unit_addr this) 8 1)"

definition tcp_set_fin_raw :: "target \<Rightarrow> (nat \<rightharpoonup> u8) \<Rightarrow> nat \<Rightarrow> u16 \<Rightarrow> (nat \<rightharpoonup> u8) option" where
  "tcp_set_fin_raw t m this v = raw_set t 2 m (tcphdr_unit_addr this) 8 1 (ucast v)"

definition tcp_syn :: "target \<Rightarrow> tcphdr \<Rightarrow> u16 option" where
  "tcp_syn t h = map_option ucast (bf_get t (tcp_bitfield_1 h) 9 1)"

definition tcp_set_syn :: "target \<Rightarrow> tcphdr \<Rightarrow> u16 \<Rightarrow> tcphdr option" where
  "tcp_set_syn t h v = map_option (\<lambda>u. h\<lparr>tcp_bitfield_1 := u\<rparr>) (bf_set t (tcp_bitfield_1 h) 9 1 (ucast v))"

definition tcp_syn_raw :: "target \<Rightarrow> (nat \<rightharpoonup> u8) \<Rightarrow> nat \<Rightarrow> u16 option" where
  "tcp_syn_raw t m this = map_option ucast (raw_get t 2 m (tcphdr_unit_addr this) 9 1)"

definition tcp_set_syn_raw :: "target \<Rightarrow> (nat \<rightharpoonup> u8) \<Rightarrow> nat \<Rightarrow> u16 \<Rightarrow> (nat \<rightharpoonup> u8) option" where
  "tcp_set_syn_raw t m this v = raw_set t 2 m (tcphdr_unit_addr this) 9 1 (ucast v)"

definition tcp_rst :: "target \<Rightarrow> tcphdr \<Rightarrow> u16 option" where
  "tcp_rst t h = map_option ucast (bf_get t (tcp_bitfield_1 h) 10 1)"

definition tcp_set_rst :: "target \<Rightarrow> tcphdr \<Rightarrow> u16 \<Rightarrow> tcphdr option" where
  "tcp_set_rst t h v = map_option (\<lambda>u. h\<lparr>tcp_bitfield_1 := u\<rparr>) (bf_set t (tcp_bitfield_1 h) 10 1 (ucast v))"

definition tcp_rst_raw :: "target \<Rightarrow> (nat \<rightharpoonup> u8) \<Rightarrow> nat \<Rightarrow> u16 option" where
  "tcp_rst_raw t m this = map_option ucast (raw_get t 2 m (tcphdr_unit_addr this) 10 1)"

definition tcp_set_rst_raw :: "target \<Rightarrow> (nat \<rightharpoonup> u8) \<Rightarrow> nat \<Rightarrow> u16 \<Rightarrow> (nat \<rightharpoonup> u8) option" where
  "tcp_set_rst_raw t m this v = raw_set t 2 m (tcphdr_unit_addr this) 10 1 (ucast v)"

definition tcp_psh :: "target \<Rightarrow> tcphdr \<Rightarrow> u16 option" where
  "tcp_psh t h = map_option ucast (bf_get t (tcp_bitfield_1 h) 11 1)"

definition tcp_set_psh :: "target \<Rightarrow> tcphdr \<Rightarrow> u16 \<Rightarrow> tcphdr option" where
  "tcp_set_psh t h v = map_option (\<lambda>u. h\<lparr>tcp_bitfield_1 := u\<rparr>) (bf_set t (tcp_bitfield_1 h) 11 1 (ucast v))"

definition tcp_psh_raw :: "target \<Rightarrow> (nat \<rightharpoonup> u8) \<Rightarrow> nat \<Rightarrow> u16 option" where
  "tcp_psh_raw t m this = map_option ucast (raw_get t 2 m (tcphdr_unit_addr this) 11 1)"

definition tcp_set_psh_raw :: "target \<Rightarrow> (nat \<rightharpoonup> u8) \<Rightarrow> nat \<Rightarrow> u16 \<Rightarrow> (nat \<rightharpoonup> u8) option" where
  "tcp_set_psh_raw t m this v = raw_set t 2 m (tcphdr_unit_addr this) 11 1 (ucast v)"

definition tcp_ack :: "target \<Rightarrow> tcphdr \<Rightarrow> u16 option" where
  "tcp_ack t h = map_option ucast (bf_get t (tcp_bitfield_1 h) 12 1)"

definition tcp_set_ack :: "target \<Rightarrow> tcphdr \<Rightarrow> u16 \<Rightarrow> tcphdr option" where
  "tcp_set_ack t h v = map_option (\<lambda>u. h\<lparr>tcp_bitfield_1 := u\<rparr>) (bf_set t (tcp_bitfield_1 h) 12 1 (ucast v))"

definition tcp_ack_raw :: "target \<Rightarrow> (nat \<rightharpoonup> u8) \<Rightarrow> nat \<Rightarrow> u16 option" where
  "tcp_ack_raw t m this = map_option ucast (raw_get t 2 m (tcphdr_unit_addr this) 12 1)"

definition tcp_set_ack_raw :: "target \<Rightarrow> (nat \<rightharpoonup> u8) \<Rightarrow> nat \<Rightarrow> u16 \<Rightarrow> (nat \<rightharpoonup> u8) option" where
  "tcp_set_ack_raw t m this v = raw_set t 2 m (tcphdr_unit_addr this) 12 1 (ucast v)"

definition tcp_urg :: "target \<Rightarrow> tcphdr \<Rightarrow> u16 option" where
  "tcp_urg t h = map_option ucast (bf_get t (tcp_bitfield_1 h) 13 1)"

definition tcp_set_urg :: "target \<Rightarrow> tcphdr \<Rightarrow> u16 \<Rightarrow> tcphdr option" where
  "tcp_set_urg t h v = map_option (\<lambda>u. h\<lparr>tcp_bitfield_1 := u\<rparr>) (bf_set t (tcp_bitfield_1 h) 13 1 (ucast v))"

definition tcp_urg_raw :: "target \<Rightarrow> (nat \<rightharpoonup> u8) \<Rightarrow> nat \<Rightarrow> u16 option" where
  "tcp_urg_raw t m this = map_option ucast (raw_get t 2 m (tcphdr_unit_addr this) 13 1)"

definition tcp_set_urg_raw :: "target \<Rightarrow> (nat \<rightharpoonup> u8) \<Rightarrow> nat \<Rightarrow> u16 \<Rightarrow> (nat \<rightharpoonup> u8) option" where
  "tcp_set_urg_raw t m this v = raw_set t 2 m (tcphdr_unit_addr this) 13 1 (ucast v)"

definition tcp_ece :: "target \<Rightarrow> tcphdr \<Rightarrow> u16 option" where
  "tcp_ece t h = map_option ucast (bf_get t (tcp_bitfield_1 h) 14 1)"

definition tcp_set_ece :: "target \<Rightarrow> tcphdr \<Rightarrow> u16 \<Rightarrow> tcphdr option" where
  "tcp_set_ece t h v = map_option (\<lambda>u. h\<lparr>tcp_bitfield_1 := u\<rparr>) (bf_set t (tcp_bitfield_1 h) 14 1 (ucast v))"

definition tcp_ece_raw :: "target \<Rightarrow> (nat \<rightharpoonup> u8) \<Rightarrow> nat \<Rightarrow> u16 option" where
  "tcp_ece_raw t m this = map_option ucast (raw_get t 2 m (tcphdr_unit_addr this) 14 1)"

definition tcp_set_ece_raw :: "target \<Rightarrow> (nat \<rightharpoonup> u8) \<Rightarrow> nat \<Rightarrow> u16 \<Rightarrow> (nat \<rightharpoonup> u8) option" where
  "tcp_set_ece_raw t m this v = raw_set t 2 m (tcphdr_unit_addr this) 14 1 (ucast v)"

definition tcp_cwr :: "target \<Rightarrow> tcphdr \<Rightarrow> u16 option" where
  "tcp_cwr t h = map_option ucast (bf_get t (tcp_bitfield_1 h) 15 1)"

definition tcp_set_cwr :: "target \<Rightarrow> tcphdr \<Rightarrow> u16 \<Rightarrow> tcphdr option" where
  "tcp_set_cwr t h v = map_option (\<lambda>u. h\<lparr>tcp_bitfield_1 := u\<rparr>) (bf_set t (tcp_bitfield_1 h) 15 1 (ucast v))"

definition tcp_cwr_raw :: "target \<Rightarrow> (nat \<rightharpoonup> u8) \<Rightarrow> nat \<Rightarrow> u16 option" where
  "tcp_cwr_raw t m this = map_option ucast (raw_get t 2 m (tcphdr_unit_addr this) 15 1)"

definition tcp_set_cwr_raw :: "target \<Rightarrow> (nat \<rightharpoonup> u8) \<Rightarrow> nat \<Rightarrow> u16 \<Rightarrow> (nat \<rightharpoonup> u8) option" where
  "tcp_set_cwr_raw t m this v = raw_set t 2 m (tcphdr_unit_addr this) 15 1 (ucast v)"

definition tcp_new_bitfield_1 ::
  "target \<Rightarrow> u16 \<Rightarrow> u16 \<Rightarrow> u16 \<Rightarrow> u16 \<Rightarrow> u16 \<Rightarrow> u16 \<Rightarrow> u16 \<Rightarrow> u16 \<Rightarrow> u16 \<Rightarrow> u16 \<Rightarrow> u8 list option" where
  "tcp_new_bitfield_1 t res1 doff fin syn rst psh ack urg ece cwr =
     do {
       u0 \<leftarrow> bf_set t (replicate 2 0) 0 4 (ucast res1);
       u1 \<leftarrow> bf_set t u0 4 4 (ucast doff);
       u2 \<leftarrow> bf_set t u1 8 1 (ucast fin);
       u3 \<leftarrow> bf_set t u2 9 1 (ucast syn);
       u4 \<leftarrow> bf_set t u3 10 1 (ucast rst);
       u5 \<leftarrow> bf_set t u4 11 1 (ucast psh);
       u6 \<leftarrow> bf_set t u5 12 1 (ucast ack);
       u7 \<leftarrow> bf_set t u6 13 1 (ucast urg);
       u8 \<leftarrow> bf_set t u7 14 1 (ucast ece);
       bf_set t u8 15 1 (ucast cwr)
     }"

section \<open>The fields as a family\<close>

datatype ip_field = Ihl | Version

datatype tcp_field = Res1 | Doff | Fin | Syn | Rst | Psh | Ack | Urg | Ece | Cwr

fun ip_get :: "ip_field \<Rightarrow> target \<Rightarrow> iphdr \<Rightarrow> u8 option" where
  "ip_get Ihl = ip_ihl"
| "ip_get Version = ip_version"

fun ip_set :: "ip_field \<Rightarrow> target \<Rightarrow> iphdr \<Rightarrow> u8 \<Rightarrow> iphdr option" where
  "ip_set Ihl = ip_set_ihl"
| "ip_set Version = ip_set_version"

fun ip_get_raw :: "ip_field \<Rightarrow> target \<Rightarrow> (nat \<rightharpoonup> u8) \<Rightarrow> nat \<Rightarrow> u8 option" where
  "ip_get_raw Ihl = ip_ihl_raw"
| "ip_get_raw Version = ip_version_raw"

fun ip_set_raw :: "ip_field \<Rightarrow> target \<Rightarrow> (nat \<rightharpoonup> u8) \<Rightarrow> nat \<Rightarrow> u8 \<Rightarrow> (nat \<rightharpoonup> u8) option" where
  "ip_set_raw Ihl = ip_set_ihl_raw"
| "ip_set_raw Version = ip_set_version_raw"

fun ip_span :: "ip_field \<Rightarrow> nat \<times> u8" where
  "ip_span Ihl = (0, 4)"
| "ip_span Version = (4, 4)"

lemmas ip_accessor_defs =
  ip_ihl_def ip_set_ihl_def ip_ihl_raw_def ip_set_ihl_raw_def
  ip_version_def ip_set_version_def ip_version_raw_def ip_set_version_raw_def

lemma ip_get_span:
  "ip_get f t h = map_option ucast (bf_get t (ip_bitfield_1 h) (fst (ip_span f)) (snd (ip_span f)))"
  by (cases f) (simp_all add: ip_accessor_defs)

lemma ip_set_span:
  "ip_set f t h v = map_option (\<lambda>u. h\<lparr>ip_bitfield_1 := u\<rparr>)
     (bf_set t (ip_bitfield_1 h) (fst (ip_span f)) (snd (ip_span f)) (ucast v))"
  by (cases f) (simp_all add: ip_accessor_defs)

lemma ip_get_raw_span:
  "ip_get_raw f t m p =
     map_option ucast (raw_get t 1 m (iphdr_unit_addr p) (fst (ip_span f)) (snd (ip_span f)))"
  by (cases f) (simp_all add: ip_accessor_defs)

lemma ip_set_raw_span:
  "ip_set_raw f t m p v =
     raw_set t 1 m (iphdr_unit_addr p) (fst (ip_span f)) (snd (ip_span f)) (ucast v)"
  by (cases f) (simp_all add: ip_accessor_defs)

lemma ip_fits: "fits 1 (fst (ip_span f)) (snd (ip_span f))"
  by (cases f) (simp_all add: fits_def)

lemma ip_apart:
  "f \<noteq> g \<Longrightarrow> fst (ip_span f) + unat (snd (ip_span f)) \<le> fst (ip_span g)
     \<or> fst (ip_span g) + unat (snd (ip_span g)) \<le> fst (ip_span f)"
  by (cases f; cases g) simp_all

fun tcp_get :: "tcp_field \<Rightarrow> target \<Rightarrow> tcphdr \<Rightarrow> u16 option" where
  "tcp_get Res1 = tcp_res1"
| "tcp_get Doff = tcp_doff"
| "tcp_get Fin = tcp_fin"
| "tcp_get Syn = tcp_syn"
| "tcp_get Rst = tcp_rst"
| "tcp_get Psh = tcp_psh"
| "tcp_get Ack = tcp_ack"
| "tcp_get Urg = tcp_urg"
| "tcp_get Ece = tcp_ece"
| "tcp_get Cwr = tcp_cwr"

fun tcp_set :: "tcp_field \<Rightarrow> target \<Rightarrow> tcphdr \<Rightarrow> u16 \<Rightarrow> tcphdr option" where
  "tcp_set Res1 = tcp_set_res1"
| "tcp_set Doff = tcp_set_doff"
| "tcp_set Fin = tcp_set_fin"
| "tcp_set Syn = tcp_set_syn"
| "tcp_set Rst = tcp_set_rst"
| "tcp_set Psh = tcp_set_psh"
| "tcp_set Ack = tcp_set_ack"
| "tcp_set Urg = tcp_set_urg"
| "tcp_set Ece = tcp_set_ece"
| "tcp_set Cwr = tcp_set_cwr"

fun tcp_get_raw :: "tcp_field \<Rightarrow> target \<Rightarrow> (nat \<rightharpoonup> u8) \<Rightarrow> nat \<Rightarrow> u16 option" where
  "tcp_get_raw Res1 = tcp_res1_raw"
| "tcp_get_raw Doff = tcp_doff_raw"
| "tcp_get_raw Fin = tcp_fin_raw"
| "tcp_get_raw Syn = tcp_syn_raw"
| "tcp_get_raw Rst = tcp_rst_raw"
| "tcp_get_raw Psh = tcp_psh_raw"
| "tcp_get_raw Ack = tcp_ack_raw"
| "tcp_get_raw Urg = tcp_urg_raw"
| "tcp_get_raw Ece = tcp_ece_raw"
| "tcp_get_raw Cwr = tcp_cwr_raw"

fun tcp_set_raw :: "tcp_field \<Rightarrow> target \<Rightarrow> (nat \<rightharpoonup> u8) \<Rightarrow> nat \<Rightarrow> u16 \<Rightarrow> (nat \<rightharpoonup> u8) option" where
  "tcp_set_raw Res1 = tcp_set_res1_raw"
| "tcp_set_raw Doff = tcp_set_doff_raw"
| "tcp_set_raw Fin = tcp_set_fin_raw"
| "tcp_set_raw Syn = tcp_set_syn_raw"
| "tcp_set_raw Rst = tcp_set_rst_raw"
| "tcp_set_raw Psh = tcp_set_psh_raw"
| "tcp_set_raw Ack = tcp_set_ack_raw"
| "tcp_set_raw Urg = tcp_set_urg_raw"
| "tcp_set_raw Ece = tcp_set_ece_raw"
| "tcp_set_raw Cwr = tcp_set_cwr_raw"

fun tcp_span :: "tcp_field \<Rightarrow> nat \<times> u8" where
  "tcp_span Res1 = (0, 4)"
| "tcp_span Doff = (4, 4)"
| "tcp_span Fin = (8, 1)"
| "tcp_span Syn = (9, 1)"
| "tcp_span Rst = (10, 1)"
| "tcp_span Psh = (11, 1)"
| "tcp_span Ack = (12, 1)"
| "tcp_span Urg = (13, 1)"
| "tcp_span Ece = (14, 1)"
| "tcp_span Cwr = (15, 1)"

lemmas tcp_accessor_defs =
  tcp_res1_def tcp_set_res1_def tcp_res1_raw_def tcp_set_res1_raw_def
  tcp_doff_def tcp_set_doff_def tcp_doff_raw_def tcp_set_doff_raw_def
  tcp_fin_def tcp_set_fin_def tcp_fin_raw_def tcp_set_fin_raw_def
  tcp_syn_def tcp_set_syn_def tcp_syn_raw_def tcp_set_syn_raw_def
  tcp_rst_def tcp_set_rst_def tcp_rst_raw_def tcp_set_rst_raw_def
  tcp_psh_def tcp_set_psh_def tcp_psh_raw_def tcp_set_psh_raw_def
  tcp_ack_def tcp_set_ack_def tcp_ack_raw_def tcp_set_ack_raw_def
  tcp_urg_def tcp_set_urg_def tcp_urg_raw_def tcp_set_urg_raw_def
  tcp_ece_def tcp_set_ece_def tcp_ece_raw_def tcp_set_ece_raw_def
  tcp_cwr_def tcp_set_cwr_def tcp_cwr_raw_def tcp_set_cwr_raw_def

lemma tcp_get_span:
  "tcp_get f t h = map_option ucast (bf_get t (tcp_bitfield_1 h) (fst (tcp_span f)) (snd (tcp_span f)))"
  by (cases f) (simp_all add: tcp_accessor_defs)

lemma tcp_set_span:
  "tcp_set f t h v = map_option (\<lambda>u. h\<lparr>tcp_bitfield_1 := u\<rparr>)
     (bf_set t (tcp_bitfield_1 h) (fst (tcp_span f)) (snd (tcp_span f)) (ucast v))"
  by (cases f) (simp_all add: tcp_accessor_defs)

lemma tcp_get_raw_span:
  "tcp_get_raw f t m p =
     map_option ucast (raw_get t 2 m (tcphdr_unit_addr p) (fst (tcp_span f)) (snd (tcp_span f)))"
  by (cases f) (simp_all add: tcp_accessor_defs)

lemma tcp_set_raw_span:
  "tcp_set_raw f t m p v =
     raw_set t 2 m (tcphdr_unit_addr p) (fst (tcp_span f)) (snd (tcp_span f)) (ucast v)"
  by (cases f) (simp_all add: tcp_accessor_defs)

lemma tcp_fits: "fits 2 (fst (tcp_span f)) (snd (tcp_span f))"
  by (cases f) (simp_all add: fits_def)

lemma tcp_apart:
  "f \<noteq> g \<Longrightarrow> fst (tcp_span f) + unat (snd (tcp_span f)) \<le> fst (tcp_span g)
     \<or> fst (tcp_span g) + unat (snd (tcp_span g)) \<le> fst (tcp_span f)"
  by (cases f; cases g) simp_all

declare ip_get.simps [simp del] ip_set.simps [simp del] tcp_get.simps [simp del] tcp_set.simps [simp del]

section \<open>Laws of a family of fields\<close>

text \<open>
  Fields of a header that can be read and written independently. The values are words of
  which a field keeps the low bits.
\<close>

fun write_all :: "('f \<Rightarrow> 's \<Rightarrow> 'v \<Rightarrow> 's option) \<Rightarrow> ('f \<times> 'v) list \<Rightarrow> 's \<Rightarrow> 's option" where
  "write_all wr [] s = Some s"
| "write_all wr ((f, v) # fvs) s = do { s' \<leftarrow> wr f s v; write_all wr fvs s' }"

locale header_fields =
  fixes ok :: "'s \<Rightarrow> bool"
    and width :: "'f \<Rightarrow> nat"
    and rd :: "'f \<Rightarrow> 's \<Rightarrow> 'v::len word option"
    and wr :: "'f \<Rightarrow> 's \<Rightarrow> 'v word \<Rightarrow> 's option"
  assumes rd_total: "ok s \<Longrightarrow> \<exists>v. rd f s = Some v"
    and wr_total: "ok s \<Longrightarrow> \<exists>s'. wr f s v = Some s'"
    and wr_ok: "ok s \<Longrightarrow> wr f s v = Some s' \<Longrightarrow> ok s'"
    and rd_wr: "ok s \<Longrightarrow> wr f s v = Some s' \<Longrightarrow> rd f s' = Some (take_bit (width f) v)"
    and rd_wr_other: "ok s \<Longrightarrow> wr f s v = Some s' \<Longrightarrow> g \<noteq> f \<Longrightarrow> rd g s' = rd g s"
    and wr_rd: "ok s \<Longrightarrow> rd f s = Some v \<Longrightarrow> wr f s v = Some s"
    and wr_wr: "ok s \<Longrightarrow> wr f s v = Some s' \<Longrightarrow> wr f s' u = wr f s u"
begin

lemma write_all_reads:
  assumes "distinct (map fst fvs)" "ok s"
  shows "\<exists>s'. write_all wr fvs s = Some s' \<and> ok s' \<and>
    (\<forall>g. rd g s' = (case map_of fvs g of None \<Rightarrow> rd g s | Some v \<Rightarrow> Some (take_bit (width g) v)))"
  using assms
proof (induction fvs arbitrary: s)
  case Nil
  then show ?case by simp
next
  case (Cons fv fvs)
  obtain f v where fv: "fv = (f, v)" by fastforce
  obtain s1 where s1: "wr f s v = Some s1" "ok s1"
    using wr_total [OF Cons.prems(2)] wr_ok [OF Cons.prems(2)] by blast
  obtain s' where s': "write_all wr fvs s1 = Some s'" "ok s'"
    "\<forall>g. rd g s' = (case map_of fvs g of None \<Rightarrow> rd g s1 | Some v \<Rightarrow> Some (take_bit (width g) v))"
    using Cons.IH [OF _ s1(2)] Cons.prems(1) fv by auto
  have "map_of fvs f = None"
    using Cons.prems(1) fv by (simp add: map_of_eq_None_iff)
  then have "rd g s' = (case map_of (fv # fvs) g of None \<Rightarrow> rd g s
      | Some v \<Rightarrow> Some (take_bit (width g) v))" for g
    using s'(3) rd_wr [OF Cons.prems(2) s1(1)] rd_wr_other [OF Cons.prems(2) s1(1), of g] fv
    by (cases "g = f") (auto split: option.split)
  then show ?case using s1(1) s' fv by simp
qed

lemma write_read_back:
  assumes "ok s" "rd f s = Some v" "wr f s u = Some s'"
  shows "wr f s' v = Some s"
  using wr_wr [OF assms(1,3)] wr_rd [OF assms(1,2)] by simp

end

text \<open>A header struct with one bit-field unit, its fields at the given spans of the unit.\<close>

locale bitfield_header =
  fixes t :: target and n :: nat
    and unit_of :: "'s \<Rightarrow> u8 list" and with_unit :: "u8 list \<Rightarrow> 's \<Rightarrow> 's"
    and span :: "'f \<Rightarrow> nat \<times> u8"
    and rd :: "'f \<Rightarrow> 's \<Rightarrow> 'v::len word option"
    and wr :: "'f \<Rightarrow> 's \<Rightarrow> 'v word \<Rightarrow> 's option"
  assumes unit_with: "unit_of (with_unit u s) = u"
    and with_same: "with_unit (unit_of s) s = s"
    and with_with: "with_unit u (with_unit u' s) = with_unit u s"
    and fits: "fits n (fst (span f)) (snd (span f))"
    and apart: "f \<noteq> g \<Longrightarrow> fst (span f) + unat (snd (span f)) \<le> fst (span g)
                 \<or> fst (span g) + unat (snd (span g)) \<le> fst (span f)"
    and small: "unat (snd (span f)) \<le> LENGTH('v)" "LENGTH('v) \<le> 64"
    and rd_eq: "rd f s = map_option ucast (bf_get t (unit_of s) (fst (span f)) (snd (span f)))"
    and wr_eq: "wr f s v = map_option (\<lambda>u. with_unit u s)
                  (bf_set t (unit_of s) (fst (span f)) (snd (span f)) (ucast v))"
begin

lemma take_bit_ucast:
  "ucast (take_bit (unat (snd (span f))) (ucast (v :: 'v word) :: u64)) = take_bit (unat (snd (span f))) v"
  using small by (intro bit_word_eqI) (auto simp: bit_simps)

lemma ucast_back:
  assumes "length (unit_of s) = n" "bf_get t (unit_of s) (fst (span f)) (snd (span f)) = Some r"
  shows "take_bit (unat (snd (span f))) (ucast (ucast r :: 'v word) :: u64) = r"
proof -
  have f: "fits (length (unit_of s)) (fst (span f)) (snd (span f))" using fits assms(1) by simp
  have "\<forall>i. bit r i \<longrightarrow> i < unat (snd (span f))"
    using fits_get [OF f f f f, of t] assms(2) by auto
  then show ?thesis using small(1) [of f] by (intro bit_word_eqI) (auto simp: bit_simps)
qed

lemma wrE:
  assumes "length (unit_of s) = n" "wr f s v = Some s'"
  obtains u where "bf_set t (unit_of s) (fst (span f)) (snd (span f)) (ucast v) = Some u"
    "s' = with_unit u s" "unit_of s' = u" "length u = n"
proof -
  obtain u where u: "bf_set t (unit_of s) (fst (span f)) (snd (span f)) (ucast v) = Some u"
    "s' = with_unit u s"
    using assms(2) by (auto simp: wr_eq)
  moreover have "fits (length (unit_of s)) (fst (span f)) (snd (span f))" using fits assms(1) by simp
  ultimately have "length u = n" using bf_put_get assms(1) by metis
  then show ?thesis using that u unit_with by simp
qed

end

sublocale bitfield_header \<subseteq> header_fields
  "\<lambda>s. length (unit_of s) = n" "\<lambda>f. unat (snd (span f))" rd wr
proof
  fix s f g v u s'
  assume ok: "length (unit_of s) = n"
  have f: "fits (length (unit_of s)) (fst (span h)) (snd (span h))" for h using fits ok by simp
  show "\<exists>v. rd f s = Some v" using bf_total(1) [OF f] by (simp add: rd_eq)
  show "\<exists>s'. wr f s v = Some s'" using bf_total(2) [OF f] by (simp add: wr_eq)
  { assume "rd f s = Some v"
    then obtain r where r: "bf_get t (unit_of s) (fst (span f)) (snd (span f)) = Some r" "v = ucast r"
      by (auto simp: rd_eq)
    from bf_get_put [OF f r(1) ucast_back [OF ok r(1)]] show "wr f s v = Some s"
      by (simp add: wr_eq r(2) with_same) }
  assume w: "wr f s v = Some s'"
  obtain x where x: "bf_set t (unit_of s) (fst (span f)) (snd (span f)) (ucast v) = Some x"
    "s' = with_unit x s" "unit_of s' = x" "length x = n"
    using wrE [OF ok w] by blast
  show "length (unit_of s') = n" using x(3,4) by simp
  show "rd f s' = Some (take_bit (unat (snd (span f))) v)"
    using bf_put_get [OF f x(1)] by (simp add: rd_eq x(3) take_bit_ucast)
  show "wr f s' u = wr f s u"
    using bf_put_put [OF f x(1)] by (simp add: wr_eq x(2) unit_with with_with)
  assume "g \<noteq> f"
  then show "rd g s' = rd g s"
    using bf_put_other [OF f f x(1) apart [of f g]] by (simp add: rd_eq x(3))
qed

interpretation ip: bitfield_header t 1 ip_bitfield_1 "\<lambda>u h. h\<lparr>ip_bitfield_1 := u\<rparr>" ip_span
  "\<lambda>f. ip_get f t" "\<lambda>f. ip_set f t" for t
proof
  show "unat (snd (ip_span f)) \<le> LENGTH(8)" for f by (cases f) simp_all
qed (simp_all add: ip_fits [unfolded One_nat_def] ip_apart ip_get_span ip_set_span)

interpretation tcp: bitfield_header t 2 tcp_bitfield_1 "\<lambda>u h. h\<lparr>tcp_bitfield_1 := u\<rparr>" tcp_span
  "\<lambda>f. tcp_get f t" "\<lambda>f. tcp_set f t" for t
proof
  show "unat (snd (tcp_span f)) \<le> LENGTH(16)" for f by (cases f) simp_all
qed (simp_all add: tcp_fits tcp_apart tcp_get_span tcp_set_span)

end
