(* ===== verification/SG_ProtoView.thy ===== *)
theory SG_ProtoView
  imports SG_Prelude "HOL-Library.Monad_Syntax"
begin

text \<open>
  \<^verbatim>\<open>sg-ebpf/src/proto_view.rs\<close>: the header parser of the kernel program. The packet is a
  window \<open>[data, data_end)\<close> of a byte memory and every load is checked against it: a load
  outside the window is \<open>None\<close> in the outer option, which is the access the BPF verifier
  must rule out. The parser is proved never to make such a load and to compute the
  abstract parse of the packet's bytes.
\<close>

section \<open>Packet memory\<close>

record xdp_ctx =
  data :: nat
  data_end :: nat
  mem :: "nat \<Rightarrow> u8"

definition load8 :: "xdp_ctx \<Rightarrow> nat \<Rightarrow> u8 option" where
  "load8 ctx p = (if data ctx \<le> p \<and> p < data_end ctx then Some (mem ctx p) else None)"

fun load_bytes :: "xdp_ctx \<Rightarrow> nat \<Rightarrow> nat \<Rightarrow> u8 list option" where
  "load_bytes ctx 0 p = Some []"
| "load_bytes ctx (Suc n) p =
     do { b \<leftarrow> load8 ctx p; bs \<leftarrow> load_bytes ctx n (Suc p); Some (b # bs) }"

text \<open>\<^verbatim>\<open>ptr::read_unaligned\<close> at an \<open>n\<close>-byte integer type, on a little-endian target.\<close>

definition read_unaligned :: "nat \<Rightarrow> xdp_ctx \<Rightarrow> nat \<Rightarrow> 'a::len word option" where
  "read_unaligned n ctx p = do { bs \<leftarrow> load_bytes ctx n p; Some (of_le_bytes bs) }"

text \<open>\<^verbatim>\<open>u16::from_be\<close> and \<^verbatim>\<open>u32::from_be\<close> on a little-endian target.\<close>

definition from_be :: "nat \<Rightarrow> 'a::len word \<Rightarrow> 'a word" where
  "from_be n w = swap_bytes n w"

section \<open>The parser\<close>

record proto_view =
  src_ip :: u32
  dst_ip :: u32
  src_port :: u16
  dst_port :: u16
  proto :: u8
  pv_l3_hdr :: "u8 list"

definition cold_none :: "proto_view option" where
  "cold_none = None"

definition inspect :: "xdp_ctx \<Rightarrow> proto_view option option" where
  "inspect ctx =
     (let d = data ctx; e = data_end ctx in
      if d + 34 > e then Some cold_none
      else do {
        et \<leftarrow> read_unaligned 2 ctx (d + 12);
        if from_be 2 (et :: u16) \<noteq> 0x0800 then Some cold_none
        else do {
          pr \<leftarrow> load8 ctx (d + 23);
          if pr \<noteq> 6 \<and> pr \<noteq> 17 then Some cold_none
          else if d + 54 > e then Some cold_none
          else do {
            s \<leftarrow> read_unaligned 4 ctx (d + 26);
            t \<leftarrow> read_unaligned 4 ctx (d + 30);
            sp \<leftarrow> read_unaligned 2 ctx (d + 34);
            dp \<leftarrow> read_unaligned 2 ctx (d + 36);
            h \<leftarrow> load_bytes ctx 20 (d + 14);
            Some (Some \<lparr>src_ip = from_be 4 s, dst_ip = from_be 4 t, src_port = from_be 2 sp,
              dst_port = from_be 2 dp, proto = pr, pv_l3_hdr = h\<rparr>)
          }
        }
      })"

section \<open>Abstract parse of a byte string\<close>

definition be_field :: "nat \<Rightarrow> nat \<Rightarrow> u8 list \<Rightarrow> 'a::len word" where
  "be_field off n pkt = of_be_bytes (take n (drop off pkt))"

text \<open>An Ethernet II frame that carries IPv4 with a TCP or UDP payload, 54 bytes or more.\<close>

definition signal_packet :: "u8 list \<Rightarrow> bool" where
  "signal_packet pkt \<longleftrightarrow> 54 \<le> length pkt \<and> be_field 12 2 pkt = (0x0800 :: u16) \<and>
     (pkt ! 23 = 6 \<or> pkt ! 23 = 17)"

definition parse_packet :: "u8 list \<Rightarrow> proto_view option" where
  "parse_packet pkt =
     (if signal_packet pkt then
        Some \<lparr>src_ip = be_field 26 4 pkt, dst_ip = be_field 30 4 pkt,
          src_port = be_field 34 2 pkt, dst_port = be_field 36 2 pkt,
          proto = pkt ! 23, pv_l3_hdr = take 20 (drop 14 pkt)\<rparr>
      else None)"

definition packet :: "xdp_ctx \<Rightarrow> u8 list" where
  "packet ctx = map (mem ctx) [data ctx..<data_end ctx]"

lemma length_packet [simp]: "length (packet ctx) = data_end ctx - data ctx"
  by (simp add: packet_def)

lemma load_bytes_window:
  "data ctx \<le> p \<Longrightarrow> p + n \<le> data_end ctx \<Longrightarrow>
   load_bytes ctx n p = Some (map (mem ctx) [p..<p + n])"
  by (induction n arbitrary: p) (simp_all add: load8_def upt_conv_Cons del: upt_Suc)

lemma packet_slice:
  "data ctx + a + n \<le> data_end ctx \<Longrightarrow>
   take n (drop a (packet ctx)) = map (mem ctx) [data ctx + a..<data ctx + a + n]"
  by (simp add: packet_def take_map drop_map)

lemma packet_nth: "data ctx + i < data_end ctx \<Longrightarrow> packet ctx ! i = mem ctx (data ctx + i)"
  by (simp add: packet_def)

lemma load_bytes_packet:
  "data ctx + a + n \<le> data_end ctx \<Longrightarrow>
   load_bytes ctx n (data ctx + a) = Some (take n (drop a (packet ctx)))"
  by (simp add: load_bytes_window packet_slice)

lemma read_be_packet:
  assumes "data ctx + a + n \<le> data_end ctx" and "8 * n \<le> LENGTH('a)"
  shows "\<exists>w :: 'a::len word. read_unaligned n ctx (data ctx + a) = Some w \<and>
    from_be n w = be_field a n (packet ctx)"
  using assms
  by (simp add: read_unaligned_def load_bytes_packet from_be_def be_field_def
      swap_bytes_of_le_bytes)

lemma load8_packet:
  "data ctx + i < data_end ctx \<Longrightarrow> load8 ctx (data ctx + i) = Some (packet ctx ! i)"
  by (simp add: load8_def packet_nth)

lemma inspect_parse: "inspect ctx = Some (parse_packet (packet ctx))"
proof (cases "data ctx + 34 > data_end ctx")
  case True
  then have "\<not> 54 \<le> length (packet ctx)" by simp
  with True show ?thesis
    by (simp add: inspect_def parse_packet_def signal_packet_def cold_none_def)
next
  case False
  obtain et :: u16 where et: "read_unaligned 2 ctx (data ctx + 12) = Some et"
    "from_be 2 et = be_field 12 2 (packet ctx)"
    using read_be_packet [of ctx 12 2, where 'a = 16] False by auto
  note pr = load8_packet [of ctx 23]
  show ?thesis
  proof (cases "data ctx + 54 > data_end ctx")
    case True
    then have "\<not> 54 \<le> length (packet ctx)" by simp
    with False et pr True show ?thesis
      by (simp add: inspect_def parse_packet_def signal_packet_def cold_none_def Let_def)
  next
    case long: False
    obtain s t :: u32 and sp dp :: u16 where
      "read_unaligned 4 ctx (data ctx + 26) = Some s" "from_be 4 s = be_field 26 4 (packet ctx)"
      "read_unaligned 4 ctx (data ctx + 30) = Some t" "from_be 4 t = be_field 30 4 (packet ctx)"
      "read_unaligned 2 ctx (data ctx + 34) = Some sp" "from_be 2 sp = be_field 34 2 (packet ctx)"
      "read_unaligned 2 ctx (data ctx + 36) = Some dp" "from_be 2 dp = be_field 36 2 (packet ctx)"
      using read_be_packet [of ctx 26 4, where 'a = 32] read_be_packet [of ctx 30 4, where 'a = 32]
        read_be_packet [of ctx 34 2, where 'a = 16] read_be_packet [of ctx 36 2, where 'a = 16] long
      by auto
    moreover have "load_bytes ctx 20 (data ctx + 14) = Some (take 20 (drop 14 (packet ctx)))"
      using long by (intro load_bytes_packet) simp
    moreover have "54 \<le> length (packet ctx)"
      using long by simp
    ultimately show ?thesis
      using False long et pr
      by (simp add: inspect_def parse_packet_def signal_packet_def cold_none_def Let_def)
  qed
qed

text \<open>
  C8. The parser is memory safe and correct on every packet window: no load leaves
  \<open>[data, data_end)\<close>, and the result is the abstract parse of the packet's bytes. Frames
  shorter than 54 bytes, other EtherTypes and other protocols give no view; all others
  give the big-endian fields at offsets 26, 30, 34 and 36 and the verbatim IPv4 header.
\<close>

theorem inspect_correct: "inspect ctx = Some (parse_packet (packet ctx))"
  by (rule inspect_parse)

lemma unat_be_field:
  "8 * n \<le> LENGTH('a) \<Longrightarrow> a + n \<le> length pkt \<Longrightarrow>
   unat (be_field a n pkt :: 'a::len word) = foldl (\<lambda>v b. 256 * v + unat b) 0 (take n (drop a pkt))"
  by (simp add: be_field_def unat_of_be_bytes)

lemma take_drop_nths:
  "a + 2 \<le> length xs \<Longrightarrow> take 2 (drop a xs) = [xs ! a, xs ! (a + 1)]"
  "a + 4 \<le> length xs \<Longrightarrow> take 4 (drop a xs) = [xs ! a, xs ! (a + 1), xs ! (a + 2), xs ! (a + 3)]"
  by (auto intro!: nth_equalityI simp: less_Suc_eq numeral_eq_Suc)

text \<open>
  What the accepted fields mean as numbers: addresses and ports are the big-endian
  values of the packet bytes at their offsets, only TCP and UDP are accepted, and the copied
  header is 20 bytes.
\<close>

theorem inspect_field_values:
  assumes "inspect ctx = Some (Some v)" and "pkt = packet ctx"
  shows "54 \<le> length pkt \<and> (proto v = 6 \<or> proto v = 17) \<and> length (pv_l3_hdr v) = 20 \<and>
    unat (src_ip v) = 256 * (256 * (256 * unat (pkt ! 26) + unat (pkt ! 27)) + unat (pkt ! 28))
      + unat (pkt ! 29) \<and>
    unat (dst_ip v) = 256 * (256 * (256 * unat (pkt ! 30) + unat (pkt ! 31)) + unat (pkt ! 32))
      + unat (pkt ! 33) \<and>
    unat (src_port v) = 256 * unat (pkt ! 34) + unat (pkt ! 35) \<and>
    unat (dst_port v) = 256 * unat (pkt ! 36) + unat (pkt ! 37)"
proof -
  have ok: "signal_packet pkt" "parse_packet pkt = Some v"
    using assms by (auto simp: inspect_parse parse_packet_def split: if_splits)
  then have len: "54 \<le> length pkt" "pkt ! 23 = 6 \<or> pkt ! 23 = 17"
    by (auto simp: signal_packet_def)
  have v: "v = \<lparr>src_ip = be_field 26 4 pkt, dst_ip = be_field 30 4 pkt,
      src_port = be_field 34 2 pkt, dst_port = be_field 36 2 pkt,
      proto = pkt ! 23, pv_l3_hdr = take 20 (drop 14 pkt)\<rparr>"
    using ok by (simp add: parse_packet_def)
  show ?thesis
    using len by (simp add: v unat_be_field take_drop_nths)
qed

text \<open>A TCP segment from 192.168.0.1:8080 to 10.0.0.2:80, for the concrete instances.\<close>

definition sample_packet :: "u8 list" where
  "sample_packet =
    [0, 0, 0, 0, 0, 0, 0, 0, 0, 0, 0, 0, 8, 0, 69, 0, 0, 0,
     0, 0, 0, 0, 0, 6, 0, 0, 192, 168, 0, 1, 10, 0, 0, 2, 31, 144,
     0, 80, 0, 0, 0, 0, 0, 0, 0, 0, 0, 0, 0, 0, 0, 0, 0, 0]"

definition ctx_of :: "u8 list \<Rightarrow> xdp_ctx" where
  "ctx_of pkt = \<lparr>data = 0, data_end = length pkt, mem = (\<lambda>a. pkt ! a)\<rparr>"

lemma packet_ctx_of [simp]: "packet (ctx_of pkt) = pkt"
  by (simp add: packet_def ctx_of_def map_nth)

lemma length_sample_packet [simp]: "length sample_packet = 54"
  by (simp add: sample_packet_def)

lemma parse_sample_packet:
  "parse_packet sample_packet = Some \<lparr>src_ip = 3232235521, dst_ip = 167772162,
     src_port = 8080, dst_port = 80, proto = 6,
     pv_l3_hdr = [69, 0, 0, 0, 0, 0, 0, 0, 0, 6, 0, 0, 192, 168, 0, 1, 10, 0, 0, 2]\<rparr>"
  by (simp add: parse_packet_def signal_packet_def be_field_def of_be_bytes_def sample_packet_def)

theorem inspect_field_values_witness:
  "\<exists>v. inspect (ctx_of sample_packet) = Some (Some v) \<and> proto v = 6 \<and>
     unat (src_port v) = 256 * 31 + 144 \<and> unat (dst_port v) = 80"
proof -
  obtain v where v: "inspect (ctx_of sample_packet) = Some (Some v)" "proto v = 6"
    by (simp add: inspect_parse parse_sample_packet)
  have "sample_packet ! 34 = 31" "sample_packet ! 35 = 144" "sample_packet ! 36 = 0"
    "sample_packet ! 37 = 80"
    by (simp_all add: sample_packet_def)
  with v inspect_field_values [OF v(1) refl] show ?thesis
    by (intro exI [of _ v]) simp
qed

section \<open>Header bytes the parser does not look at\<close>

lemma be_field_update:
  "i < a \<or> a + n \<le> i \<Longrightarrow> be_field a n (pkt[i := b]) = be_field a n pkt"
  by (cases "a \<le> i") (auto simp: be_field_def drop_update_swap)

lemma parse_ignores_header_byte:
  assumes "14 \<le> i" "i < 26" "i \<noteq> 23"
  shows "parse_packet (pkt[i := b]) =
    map_option (\<lambda>v. v\<lparr>pv_l3_hdr := (pv_l3_hdr v)[i - 14 := b]\<rparr>) (parse_packet pkt)"
proof -
  have "be_field 12 2 (pkt[i := b]) = (be_field 12 2 pkt :: u16)"
    "be_field 26 4 (pkt[i := b]) = (be_field 26 4 pkt :: u32)"
    "be_field 30 4 (pkt[i := b]) = (be_field 30 4 pkt :: u32)"
    "be_field 34 2 (pkt[i := b]) = (be_field 34 2 pkt :: u16)"
    "be_field 36 2 (pkt[i := b]) = (be_field 36 2 pkt :: u16)"
    using assms by (simp_all add: be_field_update)
  moreover have "pkt[i := b] ! 23 = pkt ! 23"
    using assms by simp
  moreover have "take 20 (drop 14 (pkt[i := b])) = (take 20 (drop 14 pkt))[i - 14 := b]"
    using assms by (simp add: drop_update_swap take_update_swap)
  ultimately show ?thesis
    by (simp add: parse_packet_def signal_packet_def)
qed

text \<open>A byte of the packet memory, overwritten.\<close>

definition poke :: "nat \<Rightarrow> u8 \<Rightarrow> xdp_ctx \<Rightarrow> xdp_ctx" where
  "poke i b ctx = ctx\<lparr>mem := (mem ctx)(data ctx + i := b)\<rparr>"

lemma packet_poke: "packet (poke i b ctx) = (packet ctx)[i := b]"
  by (rule nth_equalityI) (auto simp: poke_def packet_def nth_list_update)

text \<open>
  C34. The parser on two packets that differ in one byte of the IPv4 header before the
  addresses, other than the protocol byte: it accepts both or neither, without an illegal load,
  and the two views differ in that byte of the copied header only. In particular the
  version/IHL byte (14) and the fragment offset (20, 21) are not looked at: a packet with IP
  options gets "ports" from its option bytes, and a later fragment gets them from payload.
\<close>

theorem inspect_ignores_header_byte:
  assumes "14 \<le> i" "i < 26" "i \<noteq> 23"
  shows "inspect (poke i b ctx) =
    map_option (map_option (\<lambda>v. v\<lparr>pv_l3_hdr := (pv_l3_hdr v)[i - 14 := b]\<rparr>)) (inspect ctx)
    \<and> inspect ctx \<noteq> None"
  using parse_ignores_header_byte [OF assms] by (simp add: inspect_parse packet_poke)

theorem inspect_ignores_header_byte_witness:
  "map_option (map_option (\<lambda>v. (src_port v, dst_port v, hd (pv_l3_hdr v))))
     (inspect (poke 14 0x4F (ctx_of sample_packet))) = Some (Some (8080, 80, 0x4F))"
  using inspect_ignores_header_byte [of 14 "0x4F" "ctx_of sample_packet"]
  by (simp add: inspect_parse parse_sample_packet)

end
