(* ===== verification/SG_HeaderImages.thy ===== *)
theory SG_HeaderImages
  imports SG_Headers SG_ProtoView
begin

text \<open>
  The header structs of \<^verbatim>\<open>vmlinux.rs\<close> in memory: their byte images, the agreement of their
  layout with the offsets that \<^verbatim>\<open>proto_view.rs\<close> writes by hand, the place of the bit
  fields on the wire, the independence of the setters, the constructors, and the accessors
  through a pointer.
\<close>

section \<open>Byte images\<close>

text \<open>
  An integer in the target's byte order, and the bytes of each struct: its fields in order,
  without padding, which the offsets of the \<^verbatim>\<open>repr(C)\<close> rules confirm.
\<close>

definition ne_bytes :: "target \<Rightarrow> nat \<Rightarrow> 'a::len word \<Rightarrow> u8 list" where
  "ne_bytes t n w = (if big_endian t then rev (le_bytes n w) else le_bytes n w)"

definition of_ne_bytes :: "target \<Rightarrow> u8 list \<Rightarrow> 'a::len word" where
  "of_ne_bytes t bs = (if big_endian t then of_be_bytes bs else of_le_bytes bs)"

definition union_anon_1 :: "target \<Rightarrow> u8 list \<Rightarrow> iphdr_ty_1_1" where
  "union_anon_1 t bs = \<lparr>anon_saddr = of_ne_bytes t (take 4 bs), anon_daddr = of_ne_bytes t (take 4 (drop 4 bs))\<rparr>"

definition union_addrs :: "target \<Rightarrow> u8 list \<Rightarrow> iphdr_ty_1_2" where
  "union_addrs t bs = \<lparr>addrs_saddr = of_ne_bytes t (take 4 bs), addrs_daddr = of_ne_bytes t (take 4 (drop 4 bs))\<rparr>"

definition ethhdr_bytes :: "target \<Rightarrow> ethhdr \<Rightarrow> u8 list" where
  "ethhdr_bytes t h = h_dest h @ h_source h @ ne_bytes t 2 (h_proto h)"

definition iphdr_bytes :: "target \<Rightarrow> iphdr \<Rightarrow> u8 list" where
  "iphdr_bytes t h =
     ip_bitfield_1 h @ [ip_tos h] @ ne_bytes t 2 (ip_tot_len h) @ ne_bytes t 2 (ip_id h) @
     ne_bytes t 2 (ip_frag_off h) @ [ip_ttl h] @ [ip_protocol h] @ ne_bytes t 2 (ip_check h) @ ip_anon_1 h"

definition tcphdr_bytes :: "target \<Rightarrow> tcphdr \<Rightarrow> u8 list" where
  "tcphdr_bytes t h =
     ne_bytes t 2 (tcp_source h) @ ne_bytes t 2 (tcp_dest h) @ ne_bytes t 4 (tcp_seq h) @
     ne_bytes t 4 (tcp_ack_seq h) @ tcp_bitfield_1 h @ ne_bytes t 2 (tcp_window h) @
     ne_bytes t 2 (tcp_check h) @ ne_bytes t 2 (tcp_urg_ptr h)"

definition udphdr_bytes :: "target \<Rightarrow> udphdr \<Rightarrow> u8 list" where
  "udphdr_bytes t h =
     ne_bytes t 2 (udp_source h) @ ne_bytes t 2 (udp_dest h) @ ne_bytes t 2 (udp_len h) @
     ne_bytes t 2 (udp_check h)"

definition ethhdr_wf :: "ethhdr \<Rightarrow> bool" where
  "ethhdr_wf h \<longleftrightarrow> length (h_dest h) = 6 \<and> length (h_source h) = 6"

definition iphdr_wf :: "iphdr \<Rightarrow> bool" where
  "iphdr_wf h \<longleftrightarrow> length (ip_bitfield_1 h) = 1 \<and> length (ip_anon_1 h) = 8"

definition tcphdr_wf :: "tcphdr \<Rightarrow> bool" where
  "tcphdr_wf h \<longleftrightarrow> length (tcp_bitfield_1 h) = 2"

lemma length_ne_bytes [simp]: "length (ne_bytes t n w) = n"
  by (simp add: ne_bytes_def)

lemma length_images [simp]:
  "ethhdr_wf e \<Longrightarrow> length (ethhdr_bytes t e) = 14"
  "iphdr_wf i \<Longrightarrow> length (iphdr_bytes t i) = 20"
  "tcphdr_wf h \<Longrightarrow> length (tcphdr_bytes t h) = 20"
  "length (udphdr_bytes t u) = 8"
  by (simp_all add: ethhdr_bytes_def iphdr_bytes_def tcphdr_bytes_def udphdr_bytes_def
      ethhdr_wf_def iphdr_wf_def tcphdr_wf_def)

lemma of_ne_bytes_le: "\<not> big_endian t \<Longrightarrow> of_ne_bytes t bs = of_le_bytes bs"
  by (simp add: of_ne_bytes_def)

lemma of_be_ne_bytes: "\<not> big_endian t \<Longrightarrow> of_be_bytes (ne_bytes t n w) = swap_bytes n w"
  by (simp add: of_be_bytes_def swap_bytes_def ne_bytes_def)

section \<open>The structs and the hand-written parser\<close>

lemma ethhdr_slice:
  "ethhdr_wf e \<Longrightarrow> take 2 (drop 12 (ethhdr_bytes t e @ xs)) = ne_bytes t 2 (h_proto e)"
  by (simp add: ethhdr_bytes_def ethhdr_wf_def)

lemma iphdr_slices:
  assumes "iphdr_wf i"
  shows "(iphdr_bytes t i @ xs) ! 9 = ip_protocol i"
    "take 4 (drop 12 (iphdr_bytes t i @ xs)) = take 4 (ip_anon_1 i)"
    "take 4 (drop 16 (iphdr_bytes t i @ xs)) = take 4 (drop 4 (ip_anon_1 i))"
  using assms by (simp_all add: iphdr_bytes_def iphdr_wf_def nth_append)

lemma port_slices:
  "take 2 (tcphdr_bytes t h @ xs) = ne_bytes t 2 (tcp_source h)"
  "take 2 (drop 2 (tcphdr_bytes t h @ xs)) = ne_bytes t 2 (tcp_dest h)"
  "take 2 (udphdr_bytes t u @ xs) = ne_bytes t 2 (udp_source u)"
  "take 2 (drop 2 (udphdr_bytes t u @ xs)) = ne_bytes t 2 (udp_dest u)"
  by (simp_all add: tcphdr_bytes_def udphdr_bytes_def)

lemma be_field_addr:
  assumes "length bs = 4"
  shows "(of_be_bytes bs :: u32) = swap_bytes 4 (of_le_bytes bs)"
  using swap_bytes_of_le_bytes [OF assms, where 'a = 32] by simp

text \<open>The parse of an Ethernet frame with an IPv4 header and a transport header \<open>l4\<close>.\<close>

lemma parse_structs:
  assumes "\<not> big_endian t" "ethhdr_wf e" "iphdr_wf i" "20 \<le> length l4"
  shows "parse_packet (ethhdr_bytes t e @ iphdr_bytes t i @ l4) =
    (if swap_bytes 2 (h_proto e) = 0x0800 \<and> (ip_protocol i = 6 \<or> ip_protocol i = 17)
     then Some \<lparr>src_ip = swap_bytes 4 (addrs_saddr (union_addrs t (ip_anon_1 i))),
       dst_ip = swap_bytes 4 (addrs_daddr (union_addrs t (ip_anon_1 i))),
       src_port = of_be_bytes (take 2 l4), dst_port = of_be_bytes (take 2 (drop 2 l4)),
       proto = ip_protocol i, pv_l3_hdr = iphdr_bytes t i\<rparr>
     else None)"
proof -
  let ?p = "ethhdr_bytes t e @ iphdr_bytes t i @ l4"
  have d: "drop (14 + a) ?p = drop a (iphdr_bytes t i @ l4)" for a
    using assms(2) by (simp add: drop_append)
  have f: "be_field 12 2 ?p = (swap_bytes 2 (h_proto e) :: u16)"
    using assms(1,2) by (simp only: be_field_def ethhdr_slice of_be_ne_bytes not_False_eq_True)
  have n: "?p ! 23 = ip_protocol i"
    using iphdr_slices(1) [OF assms(3), of t l4] assms(2) by (simp add: nth_append)
  have addr: "length (take 4 (ip_anon_1 i)) = 4" "length (take 4 (drop 4 (ip_anon_1 i))) = 4"
    using assms(3) by (simp_all add: iphdr_wf_def)
  have s: "be_field 26 4 ?p = swap_bytes 4 (addrs_saddr (union_addrs t (ip_anon_1 i)))"
    using d [of 12] iphdr_slices(2) [OF assms(3), of t l4] be_field_addr [OF addr(1)] assms(1)
    by (simp add: be_field_def union_addrs_def of_ne_bytes_le del: drop_append take_append append_assoc)
  have t: "be_field 30 4 ?p = swap_bytes 4 (addrs_daddr (union_addrs t (ip_anon_1 i)))"
    using d [of 16] iphdr_slices(3) [OF assms(3), of t l4] be_field_addr [OF addr(2)] assms(1)
    by (simp add: be_field_def union_addrs_def of_ne_bytes_le del: drop_append take_append append_assoc)
  have p: "be_field 34 2 ?p = (of_be_bytes (take 2 l4) :: u16)"
    "be_field 36 2 ?p = (of_be_bytes (take 2 (drop 2 l4)) :: u16)"
    using assms(2,3) by (simp_all add: be_field_def)
  show ?thesis
    using assms f n s t p by (simp add: parse_packet_def signal_packet_def)
qed

lemma parse_short:
  "length pkt < 54 \<Longrightarrow> parse_packet pkt = None"
  by (simp add: parse_packet_def signal_packet_def)

text \<open>
  C19. The hand-written offsets of the parser are the offsets of the kernel's structs. On the
  little-endian target, for every Ethernet and IPv4 header struct, the frame made of their
  bytes, a TCP header and a payload is parsed to the byte-swapped fields of the structs
  exactly when the EtherType is IPv4; the same holds for UDP when 12 payload bytes follow,
  and a shorter UDP datagram is not seen at all.
\<close>
theorem parser_agrees_with_structs:
  assumes "\<not> big_endian t" "ethhdr_wf e" "iphdr_wf i" "tcphdr_wf h"
    and view: "view = (\<lambda>sp dp. if swap_bytes 2 (h_proto e) = 0x0800
      then Some \<lparr>src_ip = swap_bytes 4 (addrs_saddr (union_addrs t (ip_anon_1 i))),
             dst_ip = swap_bytes 4 (addrs_daddr (union_addrs t (ip_anon_1 i))),
             src_port = swap_bytes 2 sp, dst_port = swap_bytes 2 dp,
             proto = ip_protocol i, pv_l3_hdr = iphdr_bytes t i\<rparr>
      else None)"
  shows "(ip_protocol i = 6 \<longrightarrow>
      inspect (ctx_of (ethhdr_bytes t e @ iphdr_bytes t i @ tcphdr_bytes t h @ payload))
        = Some (view (tcp_source h) (tcp_dest h)))
    \<and> (ip_protocol i = 17 \<longrightarrow>
      inspect (ctx_of (ethhdr_bytes t e @ iphdr_bytes t i @ udphdr_bytes t u @ payload))
        = Some (if 12 \<le> length payload then view (udp_source u) (udp_dest u) else None))"
proof -
  have tcp: "20 \<le> length (tcphdr_bytes t h @ payload)" using assms(4) by simp
  have udp: "20 \<le> length (udphdr_bytes t u @ payload)" if "12 \<le> length payload" using that by simp
  note parse = parse_structs [OF assms(1-3)]
  show ?thesis
    using parse [OF tcp] parse [OF udp] assms(1-3)
    by (simp add: inspect_parse view port_slices of_be_ne_bytes parse_short del: take_append drop_append)
qed

theorem parser_agrees_with_structs_witness:
  "\<exists>e i h. ethhdr_wf e \<and> iphdr_wf i \<and> tcphdr_wf h \<and>
     map_option (map_option dst_port) (inspect (ctx_of (ethhdr_bytes \<lparr>big_endian = False, debug = False\<rparr> e
       @ iphdr_bytes \<lparr>big_endian = False, debug = False\<rparr> i
       @ tcphdr_bytes \<lparr>big_endian = False, debug = False\<rparr> h @ []))) = Some (Some 80)"
proof -
  let ?t = "\<lparr>big_endian = False, debug = False\<rparr>"
  let ?e = "\<lparr>h_dest = replicate 6 0, h_source = replicate 6 0, h_proto = 8\<rparr>"
  let ?i = "\<lparr>ip_bitfield_1 = [0x45], ip_tos = 0, ip_tot_len = 0, ip_id = 0, ip_frag_off = 0, ip_ttl = 64,
    ip_protocol = 6, ip_check = 0, ip_anon_1 = [192, 168, 0, 1, 10, 0, 0, 2]\<rparr>"
  let ?h = "\<lparr>tcp_source = 0x901F, tcp_dest = 0x5000, tcp_seq = 0, tcp_ack_seq = 0,
    tcp_bitfield_1 = [0x50, 2], tcp_window = 0, tcp_check = 0, tcp_urg_ptr = 0\<rparr>"
  have wf: "\<not> big_endian ?t" "ethhdr_wf ?e" "iphdr_wf ?i" "tcphdr_wf ?h"
    by (simp_all add: ethhdr_wf_def iphdr_wf_def tcphdr_wf_def)
  have be: "swap_bytes 2 (8 :: u16) = 0x0800" "swap_bytes 2 (0x5000 :: u16) = 80"
    by code_simp+
  show ?thesis
    using wf parser_agrees_with_structs [OF wf refl, of "[]"] be
    by (intro exI [of _ ?e] exI [of _ ?i] exI [of _ ?h]) simp
qed

section \<open>Setters and constructors\<close>

text \<open>
  C27. The accessors of the TCP and IPv4 bit fields are independent: a setter leaves the
  struct's other members alone and always succeeds; its field then reads as the low bits of the
  value, every other field of the unit reads as before, and setting back the old value
  restores the struct. Holds on both endiannesses and in both build profiles.
\<close>
theorem setters_independent:
  assumes "tcphdr_wf h" "iphdr_wf i"
  shows "(\<exists>h'. tcp_set f t h v = Some h' \<and> h'\<lparr>tcp_bitfield_1 := tcp_bitfield_1 h\<rparr> = h \<and> tcphdr_wf h'
      \<and> (\<forall>g. tcp_get g t h' = (if g = f then Some (take_bit (unat (snd (tcp_span f))) v) else tcp_get g t h))
      \<and> (\<forall>old. tcp_get f t h = Some old \<longrightarrow> tcp_set f t h' old = Some h))
    \<and> (\<exists>i'. ip_set p t i w = Some i' \<and> i'\<lparr>ip_bitfield_1 := ip_bitfield_1 i\<rparr> = i \<and> iphdr_wf i'
      \<and> (\<forall>q. ip_get q t i' = (if q = p then Some (take_bit (unat (snd (ip_span p))) w) else ip_get q t i))
      \<and> (\<forall>old. ip_get p t i = Some old \<longrightarrow> ip_set p t i' old = Some i))"
proof
  have ok: "length (tcp_bitfield_1 h) = 2" using assms(1) by (simp add: tcphdr_wf_def)
  obtain h' where h': "tcp_set f t h v = Some h'" using tcp.wr_total [OF ok] by blast
  moreover have "h'\<lparr>tcp_bitfield_1 := tcp_bitfield_1 h\<rparr> = h" using h' by (auto simp: tcp_set_span)
  moreover have "tcphdr_wf h'" using tcp.wr_ok [OF ok h'] by (simp add: tcphdr_wf_def)
  ultimately show "\<exists>h'. tcp_set f t h v = Some h' \<and> h'\<lparr>tcp_bitfield_1 := tcp_bitfield_1 h\<rparr> = h \<and> tcphdr_wf h'
      \<and> (\<forall>g. tcp_get g t h' = (if g = f then Some (take_bit (unat (snd (tcp_span f))) v) else tcp_get g t h))
      \<and> (\<forall>old. tcp_get f t h = Some old \<longrightarrow> tcp_set f t h' old = Some h)"
    using tcp.rd_wr [OF ok h'] tcp.rd_wr_other [OF ok h'] tcp.write_read_back [OF ok _ h'] by auto
next
  have ok: "length (ip_bitfield_1 i) = 1" using assms(2) by (simp add: iphdr_wf_def)
  obtain i' where i': "ip_set p t i w = Some i'" using ip.wr_total [OF ok] by blast
  moreover have "i'\<lparr>ip_bitfield_1 := ip_bitfield_1 i\<rparr> = i" using i' by (auto simp: ip_set_span)
  moreover have "iphdr_wf i'"
    using ip.wr_ok [OF ok i'] assms(2) i' by (auto simp: iphdr_wf_def ip_set_span)
  ultimately show "\<exists>i'. ip_set p t i w = Some i' \<and> i'\<lparr>ip_bitfield_1 := ip_bitfield_1 i\<rparr> = i \<and> iphdr_wf i'
      \<and> (\<forall>q. ip_get q t i' = (if q = p then Some (take_bit (unat (snd (ip_span p))) w) else ip_get q t i))
      \<and> (\<forall>old. ip_get p t i = Some old \<longrightarrow> ip_set p t i' old = Some i)"
    using ip.rd_wr [OF ok i'] ip.rd_wr_other [OF ok i'] ip.write_read_back [OF ok _ i'] by auto
qed

definition sample_tcphdr :: tcphdr where
  "sample_tcphdr = \<lparr>tcp_source = 0x901F, tcp_dest = 0x5000, tcp_seq = 0, tcp_ack_seq = 0,
    tcp_bitfield_1 = [0x50, 2], tcp_window = 0, tcp_check = 0, tcp_urg_ptr = 0\<rparr>"

definition sample_iphdr :: iphdr where
  "sample_iphdr = \<lparr>ip_bitfield_1 = [0x45], ip_tos = 0, ip_tot_len = 0, ip_id = 0, ip_frag_off = 0,
    ip_ttl = 64, ip_protocol = 6, ip_check = 0, ip_anon_1 = [192, 168, 0, 1, 10, 0, 0, 2]\<rparr>"

lemma sample_headers_wf: "tcphdr_wf sample_tcphdr" "iphdr_wf sample_iphdr"
  by (simp_all add: tcphdr_wf_def iphdr_wf_def sample_tcphdr_def sample_iphdr_def)

theorem setters_independent_witness:
  "\<exists>h'. tcp_set Syn \<lparr>big_endian = False, debug = True\<rparr> sample_tcphdr 3 = Some h'
     \<and> tcp_get Syn \<lparr>big_endian = False, debug = True\<rparr> h' = Some 1
     \<and> tcp_get Doff \<lparr>big_endian = False, debug = True\<rparr> h'
       = tcp_get Doff \<lparr>big_endian = False, debug = True\<rparr> sample_tcphdr"
proof -
  from setters_independent [OF sample_headers_wf, of Syn "\<lparr>big_endian = False, debug = True\<rparr>" 3,
    THEN conjunct1]
  obtain h' where h': "tcp_set Syn \<lparr>big_endian = False, debug = True\<rparr> sample_tcphdr 3 = Some h'"
    "\<forall>g. tcp_get g \<lparr>big_endian = False, debug = True\<rparr> h' = (if g = Syn
      then Some (take_bit (unat (snd (tcp_span Syn))) 3)
      else tcp_get g \<lparr>big_endian = False, debug = True\<rparr> sample_tcphdr)"
    by blast
  have "(take_bit (unat (snd (tcp_span Syn))) 3 :: u16) = 1" by simp
  then show ?thesis using h' by (intro exI [of _ h'] conjI) (simp_all only: simp_thms tcp_field.distinct if_True if_False)
qed

lemma tcp_write_unit:
  "map_option tcp_bitfield_1 (write_all (\<lambda>f. tcp_set f t) ((f, v) # fvs) h) =
     Option.bind (bf_set t (tcp_bitfield_1 h) (fst (tcp_span f)) (snd (tcp_span f)) (ucast v))
       (\<lambda>u. map_option tcp_bitfield_1 (write_all (\<lambda>f. tcp_set f t) fvs (h\<lparr>tcp_bitfield_1 := u\<rparr>)))"
  by (cases "bf_set t (tcp_bitfield_1 h) (fst (tcp_span f)) (snd (tcp_span f)) (ucast v)")
    (simp_all add: tcp_set_span)

lemma ip_write_unit:
  "map_option ip_bitfield_1 (write_all (\<lambda>f. ip_set f t) ((f, v) # fvs) h) =
     Option.bind (bf_set t (ip_bitfield_1 h) (fst (ip_span f)) (snd (ip_span f)) (ucast v))
       (\<lambda>u. map_option ip_bitfield_1 (write_all (\<lambda>f. ip_set f t) fvs (h\<lparr>ip_bitfield_1 := u\<rparr>)))"
  by (cases "bf_set t (ip_bitfield_1 h) (fst (ip_span f)) (snd (ip_span f)) (ucast v)")
    (simp_all add: ip_set_span)

lemma tcp_new_write_all:
  "tcp_new_bitfield_1 t res1 doff fin syn rst psh ack urg ece cwr =
     map_option tcp_bitfield_1 (write_all (\<lambda>f. tcp_set f t)
       [(Res1, res1), (Doff, doff), (Fin, fin), (Syn, syn), (Rst, rst), (Psh, psh), (Ack, ack),
        (Urg, urg), (Ece, ece), (Cwr, cwr)] (h\<lparr>tcp_bitfield_1 := replicate 2 0\<rparr>))"
  unfolding tcp_write_unit tcp_new_bitfield_1_def by simp

lemma ip_new_write_all:
  "ip_new_bitfield_1 t ihl version =
     map_option ip_bitfield_1 (write_all (\<lambda>f. ip_set f t) [(Ihl, ihl), (Version, version)]
       (h\<lparr>ip_bitfield_1 := replicate 1 0\<rparr>))"
  unfolding ip_write_unit ip_new_bitfield_1_def by simp

lemma tcp_get_unit: "tcp_bitfield_1 h = tcp_bitfield_1 h' \<Longrightarrow> tcp_get f t h = tcp_get f t h'"
  by (simp add: tcp_get_span)

lemma ip_get_unit: "ip_bitfield_1 h = ip_bitfield_1 h' \<Longrightarrow> ip_get f t h = ip_get f t h'"
  by (simp add: ip_get_span)

text \<open>The ten fields cover the sixteen bits of the unit, so their values determine it.\<close>

lemma bf_get_sbit:
  assumes f: "fits (length s) off width" "fits (length s') off width"
    and eq: "bf_get t s off width = bf_get t s' off width" and j: "off \<le> j" "j < off + unat width"
  shows "sbit t s j \<longleftrightarrow> sbit t s' j"
proof -
  let ?i = "value_index t (unat width) (j - off)"
  have i: "j - off < unat width" using j by simp
  have at: "?i < unat width" "value_index t (unat width) ?i + off = j"
    using value_index_less [OF i] i j(1) by simp_all
  obtain r where "bf_get t s off width = Some r" "bit r ?i \<longleftrightarrow> sbit t s j"
    using fits_get [OF f(1,1,1,1), of t] at by auto
  moreover obtain r' where "bf_get t s' off width = Some r'" "bit r' ?i \<longleftrightarrow> sbit t s' j"
    using fits_get [OF f(2,2,2,2), of t] at by auto
  ultimately show ?thesis using eq by simp
qed

lemma tcp_cover: "j < 16 \<Longrightarrow> \<exists>f. fst (tcp_span f) \<le> j \<and> j < fst (tcp_span f) + unat (snd (tcp_span f))"
proof -
  assume "j < 16"
  then consider "j < 4" | "4 \<le> j" "j < 8" | "j = 8" | "j = 9" | "j = 10" | "j = 11" | "j = 12"
    | "j = 13" | "j = 14" | "j = 15" by linarith
  then show ?thesis
  proof cases
    case 1 then show ?thesis by (intro exI [of _ Res1]) simp
  next
    case 2 then show ?thesis by (intro exI [of _ Doff]) simp
  next
    case 3 then show ?thesis by (intro exI [of _ Fin]) simp
  next
    case 4 then show ?thesis by (intro exI [of _ Syn]) simp
  next
    case 5 then show ?thesis by (intro exI [of _ Rst]) simp
  next
    case 6 then show ?thesis by (intro exI [of _ Psh]) simp
  next
    case 7 then show ?thesis by (intro exI [of _ Ack]) simp
  next
    case 8 then show ?thesis by (intro exI [of _ Urg]) simp
  next
    case 9 then show ?thesis by (intro exI [of _ Ece]) simp
  next
    case 10 then show ?thesis by (intro exI [of _ Cwr]) simp
  qed
qed

lemma tcp_fields_determine:
  assumes "tcphdr_wf h" "tcphdr_wf h'" "\<And>f. tcp_get f t h = tcp_get f t h'"
  shows "tcp_bitfield_1 h = tcp_bitfield_1 h'"
proof (rule sbit_inject)
  have l: "length (tcp_bitfield_1 h) = 2" "length (tcp_bitfield_1 h') = 2"
    using assms(1,2) by (simp_all add: tcphdr_wf_def)
  then show "length (tcp_bitfield_1 h) = length (tcp_bitfield_1 h')" by simp
  fix j assume "j < 8 * length (tcp_bitfield_1 h)"
  then obtain f where j: "fst (tcp_span f) \<le> j" "j < fst (tcp_span f) + unat (snd (tcp_span f))"
    using tcp_cover [of j] l by auto
  obtain a where a: "bf_get t (tcp_bitfield_1 h) (fst (tcp_span f)) (snd (tcp_span f)) = Some a"
    using bf_total(1) tcp_fits [of f] l(1) by metis
  obtain b where b: "bf_get t (tcp_bitfield_1 h') (fst (tcp_span f)) (snd (tcp_span f)) = Some b"
    using bf_total(1) tcp_fits [of f] l(2) by metis
  have "(ucast a :: u16) = ucast b" using assms(3) [of f] a b by (simp add: tcp_get_span)
  then have "a = b" using tcp.ucast_back [OF l(1) a] tcp.ucast_back [OF l(2) b] by metis
  then show "sbit t (tcp_bitfield_1 h) j \<longleftrightarrow> sbit t (tcp_bitfield_1 h') j"
    using bf_get_sbit [OF _ _ _ j] tcp_fits [of f] l a b by metis
qed

lemma tcp_read_small:
  assumes "tcphdr_wf h" and v: "tcp_get f t h = Some v"
  shows "take_bit (unat (snd (tcp_span f))) v = v"
proof -
  have ok: "length (tcp_bitfield_1 h) = 2" using assms(1) by (simp add: tcphdr_wf_def)
  show ?thesis using tcp.rd_wr [OF ok tcp.wr_rd [OF ok v]] v by simp
qed

lemma tcp_new_reads:
  assumes "tcphdr_wf h"
  shows "\<exists>u. tcp_new_bitfield_1 t (vs Res1) (vs Doff) (vs Fin) (vs Syn) (vs Rst) (vs Psh) (vs Ack)
      (vs Urg) (vs Ece) (vs Cwr) = Some u \<and> length u = 2
    \<and> (\<forall>g. tcp_get g t (h\<lparr>tcp_bitfield_1 := u\<rparr>) = Some (take_bit (unat (snd (tcp_span g))) (vs g)))"
proof -
  let ?h = "h\<lparr>tcp_bitfield_1 := replicate 2 0\<rparr>"
  let ?fvs = "[(Res1, vs Res1), (Doff, vs Doff), (Fin, vs Fin), (Syn, vs Syn), (Rst, vs Rst),
    (Psh, vs Psh), (Ack, vs Ack), (Urg, vs Urg), (Ece, vs Ece), (Cwr, vs Cwr)]"
  have "distinct (map fst ?fvs)" "length (tcp_bitfield_1 ?h) = 2" by simp_all
  from tcp.write_all_reads [OF this, of t] obtain s' where s':
    "write_all (\<lambda>f. tcp_set f t) ?fvs ?h = Some s'" "length (tcp_bitfield_1 s') = 2"
    "\<And>g. tcp_get g t s' = (case map_of ?fvs g of None \<Rightarrow> tcp_get g t ?h
       | Some v \<Rightarrow> Some (take_bit (unat (snd (tcp_span g))) v))"
    by blast
  have "map_of ?fvs g = Some (vs g)" for g by (cases g) simp_all
  then have "tcp_get g t (h\<lparr>tcp_bitfield_1 := tcp_bitfield_1 s'\<rparr>)
      = Some (take_bit (unat (snd (tcp_span g))) (vs g))" for g
    using s'(3) [of g] tcp_get_unit [of "h\<lparr>tcp_bitfield_1 := tcp_bitfield_1 s'\<rparr>" s'] by simp
  then show ?thesis
    using s'(1,2) by (simp add: tcp_new_write_all [where h = h])
qed

lemmas tcp_reads = tcp_get.simps [symmetric]

text \<open>
  C28. The constructor and the readers of the TCP unit are inverse: a unit built from ten values
  reads back each value cut to its field (4 bits for \<open>res1\<close> and \<open>doff\<close>, 1 bit for each flag),
  and building from the ten values read from any header gives the header's unit again.
\<close>
theorem tcp_new_bitfield_roundtrip:
  assumes wf: "tcphdr_wf h"
  shows "(\<exists>u. tcp_new_bitfield_1 t res1 doff fin syn rst psh ack urg ece cwr = Some u \<and> length u = 2
      \<and> (let k = h\<lparr>tcp_bitfield_1 := u\<rparr> in
           tcp_res1 t k = Some (take_bit 4 res1) \<and> tcp_doff t k = Some (take_bit 4 doff)
         \<and> tcp_fin t k = Some (take_bit 1 fin) \<and> tcp_syn t k = Some (take_bit 1 syn)
         \<and> tcp_rst t k = Some (take_bit 1 rst) \<and> tcp_psh t k = Some (take_bit 1 psh)
         \<and> tcp_ack t k = Some (take_bit 1 ack) \<and> tcp_urg t k = Some (take_bit 1 urg)
         \<and> tcp_ece t k = Some (take_bit 1 ece) \<and> tcp_cwr t k = Some (take_bit 1 cwr)))
    \<and> tcp_new_bitfield_1 t (the (tcp_res1 t h)) (the (tcp_doff t h)) (the (tcp_fin t h)) (the (tcp_syn t h))
        (the (tcp_rst t h)) (the (tcp_psh t h)) (the (tcp_ack t h)) (the (tcp_urg t h))
        (the (tcp_ece t h)) (the (tcp_cwr t h)) = Some (tcp_bitfield_1 h)"
proof
  let ?vs = "\<lambda>f. case f of Res1 \<Rightarrow> res1 | Doff \<Rightarrow> doff | Fin \<Rightarrow> fin | Syn \<Rightarrow> syn | Rst \<Rightarrow> rst
    | Psh \<Rightarrow> psh | Ack \<Rightarrow> ack | Urg \<Rightarrow> urg | Ece \<Rightarrow> ece | Cwr \<Rightarrow> cwr"
  from tcp_new_reads [OF wf, of t ?vs] obtain u where
    u: "tcp_new_bitfield_1 t res1 doff fin syn rst psh ack urg ece cwr = Some u" "length u = 2"
    "\<And>g. tcp_get g t (h\<lparr>tcp_bitfield_1 := u\<rparr>) = Some (take_bit (unat (snd (tcp_span g))) (?vs g))"
    by auto
  then show "\<exists>u. tcp_new_bitfield_1 t res1 doff fin syn rst psh ack urg ece cwr = Some u \<and> length u = 2
      \<and> (let k = h\<lparr>tcp_bitfield_1 := u\<rparr> in
           tcp_res1 t k = Some (take_bit 4 res1) \<and> tcp_doff t k = Some (take_bit 4 doff)
         \<and> tcp_fin t k = Some (take_bit 1 fin) \<and> tcp_syn t k = Some (take_bit 1 syn)
         \<and> tcp_rst t k = Some (take_bit 1 rst) \<and> tcp_psh t k = Some (take_bit 1 psh)
         \<and> tcp_ack t k = Some (take_bit 1 ack) \<and> tcp_urg t k = Some (take_bit 1 urg)
         \<and> tcp_ece t k = Some (take_bit 1 ece) \<and> tcp_cwr t k = Some (take_bit 1 cwr))"
    by (intro exI [of _ u]) (simp add: tcp_reads u(3))
next
  let ?vs = "\<lambda>f. the (tcp_get f t h)"
  from tcp_new_reads [OF wf, of t ?vs] obtain u where
    u: "tcp_new_bitfield_1 t (?vs Res1) (?vs Doff) (?vs Fin) (?vs Syn) (?vs Rst) (?vs Psh) (?vs Ack)
      (?vs Urg) (?vs Ece) (?vs Cwr) = Some u" "length u = 2"
    "\<And>g. tcp_get g t (h\<lparr>tcp_bitfield_1 := u\<rparr>) = Some (take_bit (unat (snd (tcp_span g))) (?vs g))"
    by auto
  have "tcp_get g t (h\<lparr>tcp_bitfield_1 := u\<rparr>) = tcp_get g t h" for g
  proof -
    obtain v where v: "tcp_get g t h = Some v"
      using tcp.rd_total [of h g t] wf by (auto simp: tcphdr_wf_def)
    then show ?thesis using u(3) [of g] tcp_read_small [OF wf v] by simp
  qed
  then have "tcp_bitfield_1 (h\<lparr>tcp_bitfield_1 := u\<rparr>) = tcp_bitfield_1 h"
    using tcp_fields_determine [of "h\<lparr>tcp_bitfield_1 := u\<rparr>" h t] u(2) wf by (simp add: tcphdr_wf_def)
  then show "tcp_new_bitfield_1 t (the (tcp_res1 t h)) (the (tcp_doff t h)) (the (tcp_fin t h)) (the (tcp_syn t h))
        (the (tcp_rst t h)) (the (tcp_psh t h)) (the (tcp_ack t h)) (the (tcp_urg t h))
        (the (tcp_ece t h)) (the (tcp_cwr t h)) = Some (tcp_bitfield_1 h)"
    using u(1) by (simp add: tcp_reads)
qed

theorem tcp_new_bitfield_roundtrip_witness:
  "\<exists>u. tcp_new_bitfield_1 \<lparr>big_endian = False, debug = True\<rparr> 0 5 0 1 0 0 0 0 0 0 = Some u \<and> length u = 2"
  using tcp_new_bitfield_roundtrip [OF sample_headers_wf(1),
    of "\<lparr>big_endian = False, debug = True\<rparr>" 0 5 0 1 0 0 0 0 0 0, THEN conjunct1] by blast

section \<open>The wire format\<close>

text \<open>The value of a field that lies within one byte of the unit, on both byte orders.\<close>

lemma byte_of:
  fixes off w n k :: nat
  assumes "off div 8 = k" "(off + w - 1) div 8 = k" "n < w"
  shows "(n + off) div 8 = k \<and> (n + off) mod 8 = off mod 8 + n"
proof -
  have "8 * k + off mod 8 = off" "8 * k + (off + w - 1) mod 8 = off + w - 1"
    using assms(1,2) by (metis mult_div_mod_eq)+
  moreover have "(off + w - 1) mod 8 < 8" by simp
  ultimately obtain m where m: "m = off mod 8 + n" and at: "n + off = 8 * k + m" "m < 8"
    using assms(3) by fastforce
  have "(8 * k + m) div 8 = k" "(8 * k + m) mod 8 = m" using at(2) by simp_all
  then show ?thesis by (simp only: at(1) m)
qed

definition byte_shift :: "target \<Rightarrow> nat \<Rightarrow> nat \<Rightarrow> nat" where
  "byte_shift t off w = (if big_endian t then 8 - off mod 8 - w else off mod 8)"

lemma bf_get_byte:
  assumes b: "off div 8 = k" "(off + unat width - 1) div 8 = k" "k < length s"
    and f: "fits (length s) off width"
  shows "bf_get t s off width
    = Some (ucast (take_bit (unat width) (drop_bit (byte_shift t off (unat width)) (s ! k))))"
proof -
  let ?w = "unat width"
  obtain r where r: "bf_get t s off width = Some r"
    "\<forall>n. bit r n \<longleftrightarrow> n < ?w \<and> sbit t s (value_index t ?w n + off)"
    using fits_get [OF f f f f, of t] by auto
  have "sbit t s (value_index t ?w n + off) \<longleftrightarrow> bit (s ! k) (byte_shift t off ?w + n)" if "n < ?w" for n
  proof -
    have m: "(m + off) div 8 = k" "(m + off) mod 8 = off mod 8 + m" "off mod 8 + m < 8" if "m < ?w" for m
      using byte_of [OF b(1,2) that] mod_less_divisor [of 8 "m + off"] by simp_all
    have "(value_index t ?w n + off) mod 8 = off mod 8 + value_index t ?w n"
      using m(2) value_index_less [OF that] by blast
    moreover have "off mod 8 + (?w - 1) < 8" using m(3) [of "?w - 1"] that by simp
    ultimately have "bit_index t (value_index t ?w n + off) = byte_shift t off ?w + n"
      using that unfolding bit_index_def value_index_def byte_shift_def
      by (cases "big_endian t") (simp_all only: if_True if_False, linarith+)
    then show ?thesis using m(1) [OF value_index_less [OF that, of t]] by (simp add: sbit_def)
  qed
  then have "r = ucast (take_bit ?w (drop_bit (byte_shift t off ?w) (s ! k)))"
    using r(2) f bit_imp_le_length [of "s ! k"]
    by (intro bit_word_eqI) (auto simp: bit_simps fits_def)
  then show ?thesis using r(1) by simp
qed

lemma flag_on_the_wire:
  assumes "tcp_span f = (8 + k, 1)" "k < 8" "tcp_bitfield_1 h = [b12, b13]"
  shows "tcp_get f t h = Some (of_bool (bit b13 (if big_endian t then 7 - k else k)))"
proof -
  let ?k = "if big_endian t then 7 - k else k"
  have d: "(8 + k) div 8 = 1" "(8 + k + 1 - 1) div 8 = 1" "(8 + k) mod 8 = k" using assms(2) by simp_all
  have "fits (length [b12, b13]) (8 + k) 1"
    using tcp_fits [of f] assms(1) by (simp add: numeral_2_eq_2)
  moreover have "take_bit 1 (drop_bit ?k b13) = of_bool (bit b13 ?k)"
    by (simp add: take_bit_Suc bit_iff_odd_drop_bit odd_iff_mod_2_eq_one)
  moreover have "byte_shift t (8 + k) 1 = ?k" using d(3) by (simp add: byte_shift_def)
  ultimately show ?thesis
    using bf_get_byte [of "8 + k" 1 1 "[b12, b13]" t] d assms
    by (simp add: tcp_get_span)
qed

lemma nibbles:
  "take_bit 4 (drop_bit 4 (b :: u8)) = drop_bit 4 b"
  "ucast (ucast (drop_bit 4 (b :: u8)) :: u64) = drop_bit 4 b"
  "ucast (ucast (drop_bit 4 (b :: u8)) :: u64) = (drop_bit 4 (ucast b) :: u16)"
  "ucast (ucast (take_bit 4 (b :: u8)) :: u64) = take_bit 4 b"
  "ucast (ucast (take_bit 4 (b :: u8)) :: u64) = (take_bit 4 (ucast b) :: u16)"
  by (rule bit_word_eqI; auto simp: bit_simps dest: bit_imp_le_length)+

lemma mod_16: "(w :: 'a::len word) mod 16 = take_bit 4 w"
  by (simp add: take_bit_eq_mod)

lemma div_16: "(w :: 'a::len word) div 16 = drop_bit 4 w"
  by (simp add: drop_bit_eq_div)

text \<open>
  C29. On the little-endian target the bit fields are the ones of the wire format (RFC 791 and
  RFC 9293): for every pair of bytes 12 and 13 of a TCP header and every first byte of an IPv4
  header, \<open>doff\<close> and \<open>version\<close> are the high nibble, \<open>res1\<close> and \<open>ihl\<close> the low one, and the eight
  flags are the bits of byte 13, \<open>fin\<close> lowest. On a big-endian target the same accessors read
  all four nibbles the other way round and the eight flags in the opposite order, \<open>fin\<close> highest.
\<close>
theorem fields_on_the_wire:
  assumes tcp: "tcp_bitfield_1 h = [b12, b13]" and ip: "ip_bitfield_1 i = [b0]"
  shows "(\<not> big_endian t \<longrightarrow>
      tcp_res1 t h = Some (ucast b12 mod 16) \<and> tcp_doff t h = Some (ucast b12 div 16)
      \<and> tcp_fin t h = Some (of_bool (bit b13 0)) \<and> tcp_syn t h = Some (of_bool (bit b13 1))
      \<and> tcp_rst t h = Some (of_bool (bit b13 2)) \<and> tcp_psh t h = Some (of_bool (bit b13 3))
      \<and> tcp_ack t h = Some (of_bool (bit b13 4)) \<and> tcp_urg t h = Some (of_bool (bit b13 5))
      \<and> tcp_ece t h = Some (of_bool (bit b13 6)) \<and> tcp_cwr t h = Some (of_bool (bit b13 7))
      \<and> ip_ihl t i = Some (b0 mod 16) \<and> ip_version t i = Some (b0 div 16))
    \<and> (big_endian t \<longrightarrow>
      tcp_res1 t h = Some (ucast b12 div 16) \<and> tcp_doff t h = Some (ucast b12 mod 16)
      \<and> tcp_fin t h = Some (of_bool (bit b13 7)) \<and> tcp_syn t h = Some (of_bool (bit b13 6))
      \<and> tcp_rst t h = Some (of_bool (bit b13 5)) \<and> tcp_psh t h = Some (of_bool (bit b13 4))
      \<and> tcp_ack t h = Some (of_bool (bit b13 3)) \<and> tcp_urg t h = Some (of_bool (bit b13 2))
      \<and> tcp_ece t h = Some (of_bool (bit b13 1)) \<and> tcp_cwr t h = Some (of_bool (bit b13 0))
      \<and> ip_ihl t i = Some (b0 div 16) \<and> ip_version t i = Some (b0 mod 16))"
proof -
  have nib: "fits (length [b0]) 0 4" "fits (length [b0]) 4 4" "fits (length [b12, b13]) 0 4"
    "fits (length [b12, b13]) 4 4"
    by (simp_all add: fits_def)
  note byte = bf_get_byte [OF _ _ _ nib(1), of 0 t, simplified] bf_get_byte [OF _ _ _ nib(2), of 0 t, simplified]
    bf_get_byte [OF _ _ _ nib(3), of 0 t, simplified] bf_get_byte [OF _ _ _ nib(4), of 0 t, simplified]
  let ?b = "\<lambda>k. if big_endian t then 7 - k else k"
  have flags: "tcp_fin t h = Some (of_bool (bit b13 (?b 0))) \<and> tcp_syn t h = Some (of_bool (bit b13 (?b 1)))
      \<and> tcp_rst t h = Some (of_bool (bit b13 (?b 2))) \<and> tcp_psh t h = Some (of_bool (bit b13 (?b 3)))
      \<and> tcp_ack t h = Some (of_bool (bit b13 (?b 4))) \<and> tcp_urg t h = Some (of_bool (bit b13 (?b 5)))
      \<and> tcp_ece t h = Some (of_bool (bit b13 (?b 6))) \<and> tcp_cwr t h = Some (of_bool (bit b13 (?b 7)))"
    using flag_on_the_wire [OF _ _ tcp, of _ _ t] by (simp add: tcp_reads)
  show ?thesis
    using flags byte tcp ip
    by (simp add: tcp_res1_def tcp_doff_def ip_ihl_def ip_version_def byte_shift_def nibbles
        mod_16 div_16)
qed


theorem fields_on_the_wire_witness:
  "tcp_syn \<lparr>big_endian = False, debug = True\<rparr> sample_tcphdr = Some 1
   \<and> ip_ihl \<lparr>big_endian = False, debug = True\<rparr> sample_iphdr = Some 5
   \<and> ip_ihl \<lparr>big_endian = True, debug = True\<rparr> sample_iphdr = Some 4"
proof -
  have u: "tcp_bitfield_1 sample_tcphdr = [0x50, 2]" "ip_bitfield_1 sample_iphdr = [0x45]"
    by (simp_all add: sample_tcphdr_def sample_iphdr_def)
  have "(of_bool (bit (2 :: u8) 1) :: u16) = 1" "(0x45 :: u8) mod 16 = 5" "(0x45 :: u8) div 16 = 4"
    by code_simp+
  then show ?thesis
    using fields_on_the_wire [OF u, of "\<lparr>big_endian = False, debug = True\<rparr>"]
      fields_on_the_wire [OF u, of "\<lparr>big_endian = True, debug = True\<rparr>"] by simp
qed

section \<open>Structs in memory\<close>

lemma holds_at_append:
  "holds_at m p (xs @ ys) \<longleftrightarrow> holds_at m p xs \<and> holds_at m (p + length xs) ys"
proof
  assume l: "holds_at m p (xs @ ys)"
  have "m (p + i) = Some (xs ! i)" if "i < length xs" for i
    using l that by (auto simp: holds_at_def nth_append)
  moreover have "m (p + length xs + i) = Some (ys ! i)" if "i < length ys" for i
    using l [unfolded holds_at_def, rule_format, of "length xs + i"] that by (simp add: add.assoc)
  ultimately show "holds_at m p xs \<and> holds_at m (p + length xs) ys" by (simp add: holds_at_def)
next
  assume r: "holds_at m p xs \<and> holds_at m (p + length xs) ys"
  have "m (p + i) = Some ((xs @ ys) ! i)" if "i < length xs + length ys" for i
  proof (cases "i < length xs")
    case True
    then show ?thesis using r by (simp add: holds_at_def nth_append)
  next
    case False
    then obtain j where j: "i = length xs + j" by (metis le_add_diff_inverse not_less)
    then show ?thesis using r that by (simp add: holds_at_def nth_append add.assoc)
  qed
  then show "holds_at m p (xs @ ys)" by (simp add: holds_at_def)
qed

lemma holds_at_cong:
  "holds_at m p xs \<Longrightarrow> (\<And>i. i < length xs \<Longrightarrow> m' (p + i) = m (p + i)) \<Longrightarrow> holds_at m' p xs"
  by (simp add: holds_at_def)

lemma holds_at_replace:
  assumes m: "holds_at m p (pre @ s @ post)" and s': "length s' = length s" "holds_at m' (p + length pre) s'"
    and same: "\<forall>a. a < p + length pre \<or> p + length pre + length s \<le> a \<longrightarrow> m' a = m a"
  shows "holds_at m' p (pre @ s' @ post)"
proof -
  have "holds_at m' p pre"
    using m same by (auto simp: holds_at_append elim!: holds_at_cong)
  moreover have "holds_at m' (p + length pre + length s') post"
    using m s'(1) same by (auto simp: holds_at_append elim!: holds_at_cong)
  ultimately show ?thesis using s'(2) by (simp add: holds_at_append)
qed

lemma tcphdr_bytes_split:
  "\<exists>pre post. length pre = 12 \<and> (\<forall>u. tcphdr_bytes t (h\<lparr>tcp_bitfield_1 := u\<rparr>) = pre @ u @ post)"
proof -
  let ?pre = "ne_bytes t 2 (tcp_source h) @ ne_bytes t 2 (tcp_dest h) @ ne_bytes t 4 (tcp_seq h)
    @ ne_bytes t 4 (tcp_ack_seq h)"
  let ?post = "ne_bytes t 2 (tcp_window h) @ ne_bytes t 2 (tcp_check h) @ ne_bytes t 2 (tcp_urg_ptr h)"
  have "length ?pre = 12" by simp
  moreover have "tcphdr_bytes t (h\<lparr>tcp_bitfield_1 := u\<rparr>) = ?pre @ u @ ?post" for u
    by (simp add: tcphdr_bytes_def)
  ultimately show ?thesis by blast
qed

text \<open>
  C38. The \<open>_raw\<close> accessors on a pointer to a TCP header in memory are the safe ones on the
  struct: they read the same field, and after a raw set memory holds the bytes of the struct the
  safe setter gives and is unchanged outside the two bytes of the bit-field unit.
\<close>
theorem raw_accessors_agree:
  assumes m: "holds_at m p (tcphdr_bytes t h)" and wf: "tcphdr_wf h"
  shows "tcp_get_raw f t m p = tcp_get f t h
    \<and> (\<exists>h' m'. tcp_set f t h v = Some h' \<and> tcp_set_raw f t m p v = Some m'
         \<and> holds_at m' p (tcphdr_bytes t h')
         \<and> (\<forall>a. a < p + 12 \<or> p + 14 \<le> a \<longrightarrow> m' a = m a))"
proof -
  let ?s = "tcp_bitfield_1 h"
  have l: "length ?s = 2" using wf by (simp add: tcphdr_wf_def)
  obtain pre post where split: "length pre = 12"
    "\<And>u. tcphdr_bytes t (h\<lparr>tcp_bitfield_1 := u\<rparr>) = pre @ u @ post"
    using tcphdr_bytes_split by blast
  have bytes: "holds_at m p (pre @ ?s @ post)" using m split(2) [of ?s] by simp
  then have unit: "holds_at m (p + 12) ?s" using split(1) by (simp add: holds_at_append)
  have f: "fits (length ?s) (fst (tcp_span f)) (snd (tcp_span f))" using tcp_fits l by simp
  note b = fits_bounds [OF f]
  have "tcp_get_raw f t m p = tcp_get f t h"
    using raw_get_holds [OF unit b, of t] l by (simp add: tcp_get_raw_span tcp_get_span)
  moreover obtain s' m' where s': "bf_set t ?s (fst (tcp_span f)) (snd (tcp_span f)) (ucast v) = Some s'"
    "raw_set t (length ?s) m (p + 12) (fst (tcp_span f)) (snd (tcp_span f)) (ucast v) = Some m'"
    "length s' = length ?s" "holds_at m' (p + 12) s'"
    "\<forall>a. a < p + 12 \<or> p + 12 + length ?s \<le> a \<longrightarrow> m' a = m a"
    using raw_set_holds [OF unit b, of t "ucast v"] by blast
  let ?h' = "h\<lparr>tcp_bitfield_1 := s'\<rparr>"
  have "tcp_set f t h v = Some ?h'" "tcp_set_raw f t m p v = Some m'"
    using s'(1,2) l by (simp_all add: tcp_set_span tcp_set_raw_span)
  moreover have same: "\<forall>a. a < p + 12 \<or> p + 14 \<le> a \<longrightarrow> m' a = m a" using s'(5) l by simp
  moreover have "holds_at m' p (tcphdr_bytes t ?h')"
    unfolding split(2) using s'(3-5) split(1) by (intro holds_at_replace [OF bytes]) simp_all
  ultimately show ?thesis by blast
qed

theorem raw_accessors_agree_witness:
  "\<exists>m m'. holds_at m 0 (tcphdr_bytes \<lparr>big_endian = False, debug = True\<rparr> sample_tcphdr)
     \<and> tcp_set_raw Syn \<lparr>big_endian = False, debug = True\<rparr> m 0 0 = Some m' \<and> m' 20 = m 20"
proof -
  let ?t = "\<lparr>big_endian = False, debug = True\<rparr>"
  let ?b = "tcphdr_bytes ?t sample_tcphdr"
  have m: "holds_at (\<lambda>a. if a < length ?b then Some (?b ! a) else None) 0 ?b"
    by (simp add: holds_at_def)
  show ?thesis
    using raw_accessors_agree [OF m sample_headers_wf(1), of Syn 0, THEN conjunct2] m
    by (elim exE conjE, intro exI conjI) (assumption | simp)+
qed


text \<open>The same for the IPv4 header, whose unit is its first byte.\<close>

theorem ip_raw_accessors_agree:
  assumes m: "holds_at m p (iphdr_bytes t i)" and wf: "iphdr_wf i"
  shows "ip_get_raw f t m p = ip_get f t i
    \<and> (\<exists>i' m'. ip_set f t i v = Some i' \<and> ip_set_raw f t m p v = Some m'
         \<and> holds_at m' p (iphdr_bytes t i') \<and> (\<forall>a. a \<noteq> p \<longrightarrow> m' a = m a))"
proof -
  let ?s = "ip_bitfield_1 i"
  have l: "length ?s = 1" using wf by (simp add: iphdr_wf_def)
  obtain post where split: "\<And>u. iphdr_bytes t (i\<lparr>ip_bitfield_1 := u\<rparr>) = [] @ u @ post"
    by (simp add: iphdr_bytes_def)
  have bytes: "holds_at m p ([] @ ?s @ post)" using m split [of ?s] by simp
  then have unit: "holds_at m p ?s" by (simp add: holds_at_append)
  have f: "fits (length ?s) (fst (ip_span f)) (snd (ip_span f))" using ip_fits l by simp
  note b = fits_bounds [OF f]
  have "ip_get_raw f t m p = ip_get f t i"
    using raw_get_holds [OF unit b, of t] l by (simp add: ip_get_raw_span ip_get_span)
  moreover obtain s' m' where s': "bf_set t ?s (fst (ip_span f)) (snd (ip_span f)) (ucast v) = Some s'"
    "raw_set t (length ?s) m p (fst (ip_span f)) (snd (ip_span f)) (ucast v) = Some m'"
    "length s' = length ?s" "holds_at m' p s'" "\<forall>a. a < p \<or> p + length ?s \<le> a \<longrightarrow> m' a = m a"
    using raw_set_holds [OF unit b, of t "ucast v"] by blast
  let ?i' = "i\<lparr>ip_bitfield_1 := s'\<rparr>"
  have "ip_set f t i v = Some ?i'" "ip_set_raw f t m p v = Some m'"
    using s'(1,2) l by (simp_all add: ip_set_span ip_set_raw_span)
  moreover have "\<forall>a. a \<noteq> p \<longrightarrow> m' a = m a" using s'(5) l by (simp add: nat_neq_iff Suc_le_eq)
  moreover have "holds_at m' p (iphdr_bytes t ?i')"
    unfolding split using s'(3-5) by (intro holds_at_replace [OF bytes]) simp_all
  ultimately show ?thesis by blast
qed

text \<open>Two values built into an IPv4 unit read back cut to their nibbles.\<close>

theorem ip_new_bitfield_reads:
  "\<exists>u. ip_new_bitfield_1 t ihl version = Some u \<and> length u = 1
     \<and> ip_ihl t (i\<lparr>ip_bitfield_1 := u\<rparr>) = Some (take_bit 4 ihl)
     \<and> ip_version t (i\<lparr>ip_bitfield_1 := u\<rparr>) = Some (take_bit 4 version)"
proof -
  let ?i = "i\<lparr>ip_bitfield_1 := replicate 1 0\<rparr>"
  have "distinct (map fst [(Ihl, ihl), (Version, version)])" "length (ip_bitfield_1 ?i) = 1" by simp_all
  from ip.write_all_reads [OF this, of t] obtain s' where s':
    "write_all (\<lambda>f. ip_set f t) [(Ihl, ihl), (Version, version)] ?i = Some s'" "length (ip_bitfield_1 s') = 1"
    "\<And>g. ip_get g t s' = (case map_of [(Ihl, ihl), (Version, version)] g of None \<Rightarrow> ip_get g t ?i
       | Some v \<Rightarrow> Some (take_bit (unat (snd (ip_span g))) v))"
    by blast
  then show ?thesis
    using ip_get_unit [of "i\<lparr>ip_bitfield_1 := ip_bitfield_1 s'\<rparr>" s' _ t]
    by (simp add: ip_new_write_all [where h = i] ip_get.simps [symmetric])
qed

text \<open>
  The \<^verbatim>\<open>repr(C)\<close> rules give the structs their sizes and no gap between fields, so the byte
  images above are what memory holds.
\<close>

theorem struct_layouts:
  "repr_c_offsets 0 xdp_md_fields = [0, 4, 8, 12, 16, 20] \<and> repr_c_end 0 xdp_md_fields = 24
   \<and> repr_c_offsets 0 ethhdr_fields = [0, 6, 12] \<and> repr_c_end 0 ethhdr_fields = 14
   \<and> repr_c_offsets 0 iphdr_fields = [0, 0, 1, 2, 4, 6, 8, 9, 10, 12] \<and> repr_c_end 0 iphdr_fields = 20
   \<and> repr_c_offsets 0 tcphdr_fields = [0, 2, 4, 8, 12, 12, 14, 16, 18] \<and> repr_c_end 0 tcphdr_fields = 20
   \<and> repr_c_offsets 0 udphdr_fields = [0, 2, 4, 6] \<and> repr_c_end 0 udphdr_fields = 8"
  by code_simp

end
