(* ===== verification/SG_Hash.thy ===== *)
theory SG_Hash
  imports SG_Prelude
begin

text \<open>
  The hash of \<^verbatim>\<open>sg-ebpf/src/filter.rs\<close>: \<^verbatim>\<open>murmur3_13\<close>, the unrolled Murmur3-32 over the
  13-byte 5-tuple with seed 0, and its finaliser \<^verbatim>\<open>fmix32\<close>. A generic Murmur3-32 over
  byte strings serves as the reference, and the unrolled code is proved equal to it. Each
  mixing step is proved invertible, which bounds where collisions can come from.
\<close>

section \<open>The code\<close>

definition MUR_C1 :: u32 where
  "MUR_C1 = 0xcc9e2d51"

definition MUR_C2 :: u32 where
  "MUR_C2 = 0x1b873593"

definition fmix32 :: "u32 \<Rightarrow> u32" where
  "fmix32 h =
     (let h = h XOR drop_bit 16 h;
          h = h * 0x85ebca6b;
          h = h XOR drop_bit 13 h;
          h = h * 0xc2b2ae35;
          h = h XOR drop_bit 16 h
      in h)"

definition murmur3_13 :: "u32 \<Rightarrow> u32 \<Rightarrow> u16 \<Rightarrow> u16 \<Rightarrow> u8 \<Rightarrow> u32" where
  "murmur3_13 src_ip dst_ip src_port dst_port proto =
     (let h1 = 0;
          k1 = src_ip;
          k1 = k1 * MUR_C1;
          k1 = word_rotl 15 k1;
          k1 = k1 * MUR_C2;
          h1 = h1 XOR k1;
          h1 = word_rotl 13 h1;
          h1 = h1 * 5 + 0xe6546b64;

          k2 = dst_ip;
          k2 = k2 * MUR_C1;
          k2 = word_rotl 15 k2;
          k2 = k2 * MUR_C2;
          h1 = h1 XOR k2;
          h1 = word_rotl 13 h1;
          h1 = h1 * 5 + 0xe6546b64;

          ports_word = (ucast src_port :: u32) OR push_bit 16 (ucast dst_port);
          k3 = ports_word;
          k3 = k3 * MUR_C1;
          k3 = word_rotl 15 k3;
          k3 = k3 * MUR_C2;
          h1 = h1 XOR k3;
          h1 = word_rotl 13 h1;
          h1 = h1 * 5 + 0xe6546b64;

          kt = ucast proto;
          kt = kt * MUR_C1;
          kt = word_rotl 15 kt;
          kt = kt * MUR_C2;
          h1 = h1 XOR kt;

          h1 = h1 XOR 13
      in fmix32 h1)"

section \<open>Murmur3-32 over byte strings\<close>

text \<open>
  The reference: the input is read in little-endian 4-byte blocks, a tail of up to three
  bytes is mixed in without the block rotation, and the length is folded in before the
  finaliser.
\<close>

definition mix_k :: "u32 \<Rightarrow> u32" where
  "mix_k k = word_rotl 15 (k * 0xcc9e2d51) * 0x1b873593"

definition mix_h :: "u32 \<Rightarrow> u32 \<Rightarrow> u32" where
  "mix_h h k = word_rotl 13 (h XOR mix_k k) * 5 + 0xe6546b64"

fun murmur3_body :: "u32 \<Rightarrow> u8 list \<Rightarrow> u32" where
  "murmur3_body h (a # b # c # d # bs) = murmur3_body (mix_h h (of_le_bytes [a, b, c, d])) bs"
| "murmur3_body h [] = h"
| "murmur3_body h tail = h XOR mix_k (of_le_bytes tail)"

text \<open>The finaliser: two rounds of folding the high bits down and multiplying, and a last fold.\<close>

definition fold_down :: "nat \<Rightarrow> u32 \<Rightarrow> u32" where
  "fold_down n h = h XOR of_nat (unat h div 2 ^ n)"

definition murmur3_final :: "u32 \<Rightarrow> u32" where
  "murmur3_final h = fold_down 16 (fold_down 13 (fold_down 16 h * 0x85ebca6b) * 0xc2b2ae35)"

definition murmur3_32 :: "u32 \<Rightarrow> u8 list \<Rightarrow> u32" where
  "murmur3_32 seed bs = murmur3_final (murmur3_body seed bs XOR of_nat (length bs))"

lemma of_le_bytes_append:
  "(of_le_bytes (xs @ ys) :: 'a::len word) = of_le_bytes xs OR push_bit (8 * length xs) (of_le_bytes ys)"
  by (induction xs) (simp_all add: push_bit_or ac_simps)

lemma murmur3_body_blocks:
  assumes "length bs = 4"
  shows "murmur3_body h (bs @ cs) = murmur3_body (mix_h h (of_le_bytes bs)) cs"
proof -
  from assms obtain a b c d where "bs = [a, b, c, d]"
    by (auto simp: numeral_eq_Suc length_Suc_conv)
  then show ?thesis by simp
qed

lemma fold_down_drop_bit: "fold_down n h = h XOR drop_bit n h"
proof -
  have "unat (drop_bit n h) = unat h div 2 ^ n"
    using unat_drop_bit_eq [of n h] drop_bit_eq_div [of n "unat h"] by (simp only:)
  then have "of_nat (unat h div 2 ^ n) = (of_nat (unat (drop_bit n h)) :: u32)"
    by simp
  then have "of_nat (unat h div 2 ^ n) = drop_bit n h"
    by simp
  then show ?thesis by (simp add: fold_down_def)
qed

lemma fmix32_final: "fmix32 h = murmur3_final h"
  by (simp only: fmix32_def murmur3_final_def fold_down_drop_bit Let_def)

lemma murmur3_13_mix:
  "murmur3_13 s d sp dp p =
     fmix32 (mix_h (mix_h (mix_h 0 s) d) (ucast sp OR push_bit 16 (ucast dp))
       XOR mix_k (ucast p) XOR 13)"
  by (simp add: murmur3_13_def mix_h_def mix_k_def MUR_C1_def MUR_C2_def Let_def xor.assoc)

lemma murmur3_13_reference:
  "murmur3_13 src_ip dst_ip src_port dst_port proto =
     murmur3_32 0 (le_bytes 4 src_ip @ le_bytes 4 dst_ip @
       (le_bytes 2 src_port @ le_bytes 2 dst_port) @ [proto])"
proof -
  have le: "(of_le_bytes (le_bytes 4 w) :: u32) = w" for w
    by (simp add: of_le_bytes_le_bytes)
  have le16: "(of_le_bytes (le_bytes 2 w) :: u32) = ucast (w :: u16)" for w
  proof (rule bit_word_eqI)
    fix i assume "i < LENGTH(32)"
    show "bit (of_le_bytes (le_bytes 2 w) :: u32) i = bit (ucast w :: u32) i"
      using bit_imp_le_length [of w i] \<open>i < LENGTH(32)\<close> by (auto simp: sg_bits bit_simps)
  qed
  have ports: "(of_le_bytes (le_bytes 2 src_port @ le_bytes 2 dst_port) :: u32) =
      ucast src_port OR push_bit 16 (ucast dst_port)"
    by (simp add: of_le_bytes_append le16)
  have block3: "murmur3_body h (le_bytes 2 src_port @ le_bytes 2 dst_port @ cs) =
      murmur3_body (mix_h h (ucast src_port OR push_bit 16 (ucast dst_port))) cs" for h cs
    using murmur3_body_blocks [of "le_bytes 2 src_port @ le_bytes 2 dst_port" h cs]
    by (simp add: ports)
  show ?thesis
    by (simp add: murmur3_32_def murmur3_body_blocks le block3 murmur3_13_mix fmix32_final xor.assoc)
qed

text \<open>
  C13. The unrolled hash is Murmur3-32 with seed 0 over the 13 bytes that the 5-tuple
  occupies when every field is laid out in little-endian order, ports and protocol last.
\<close>

theorem murmur3_13_is_murmur3:
  "murmur3_13 src_ip dst_ip src_port dst_port proto =
     murmur3_32 0 (le_bytes 4 src_ip @ le_bytes 4 dst_ip @
       (le_bytes 2 src_port @ le_bytes 2 dst_port) @ [proto])"
  by (rule murmur3_13_reference)

section \<open>Every mixing step is invertible\<close>

lemma drop_bit_fixpoint:
  fixes z :: "'a::len word"
  assumes "drop_bit k z = z" and "0 < k"
  shows "z = 0"
proof -
  have "unat z div 2 ^ k = unat z"
    using assms(1) by (metis drop_bit_eq_div unat_drop_bit_eq)
  moreover have "unat z div 2 ^ k < unat z" if "0 < unat z"
    using that \<open>0 < k\<close> by (intro div_less_dividend one_less_power) auto
  ultimately have "unat z = 0" by force
  then show ?thesis by (simp add: unat_eq_zero)
qed

lemma inj_xorshift: "0 < k \<Longrightarrow> inj (\<lambda>h :: 'a::len word. h XOR drop_bit k h)"
proof (rule injI)
  fix x y :: "'a word"
  assume k: "0 < k" and eq: "x XOR drop_bit k x = y XOR drop_bit k y"
  have "drop_bit k (x XOR y) = drop_bit k x XOR drop_bit k y"
    by (simp add: drop_bit_xor)
  also have "\<dots> = x XOR y"
    using eq by (metis xor.assoc xor.commute xor_self_eq xor.left_neutral)
  finally have "x XOR y = 0" using k by (rule drop_bit_fixpoint)
  then show "x = y" by (metis xor.assoc xor_self_eq xor.left_neutral xor.right_neutral)
qed

lemma inj_mult_unit: "c * c' = 1 \<Longrightarrow> inj (\<lambda>x :: 'a::len word. x * c)"
  by (rule inj_on_inverseI [where g = "\<lambda>x. x * c'"]) (simp add: mult.assoc)

lemma inj_rotl: "inj (word_rotl n :: 'a::len word \<Rightarrow> 'a word)"
  by (rule inj_on_inverseI [where g = "word_rotr n"]) simp

lemma inj_fmix32: "inj fmix32"
proof -
  have eq: "fmix32 = (\<lambda>h. h XOR drop_bit 16 h) \<circ> (\<lambda>h. h * 0xc2b2ae35)
      \<circ> (\<lambda>h. h XOR drop_bit 13 h) \<circ> (\<lambda>h. h * 0x85ebca6b) \<circ> (\<lambda>h. h XOR drop_bit 16 h)"
    by (rule ext) (simp only: fmix32_def Let_def comp_def)
  have m1: "inj (\<lambda>x :: u32. x * 0x85ebca6b)"
    by (rule inj_mult_unit [where c' = "0xa5cb9243"]) simp
  have m2: "inj (\<lambda>x :: u32. x * 0xc2b2ae35)"
    by (rule inj_mult_unit [where c' = "0x7ed1b41d"]) simp
  show ?thesis
    unfolding eq by (intro inj_compose inj_xorshift m1 m2) simp_all
qed

lemma fmix32_inject [simp]: "fmix32 a = fmix32 b \<longleftrightarrow> a = b"
  using inj_fmix32 by (rule inj_eq)

lemma inj_mix_k: "inj mix_k"
proof -
  have eq: "mix_k = (\<lambda>k. k * MUR_C2) \<circ> word_rotl 15 \<circ> (\<lambda>k. k * MUR_C1)"
    by (rule ext) (simp only: mix_k_def MUR_C1_def MUR_C2_def comp_def)
  have m1: "inj (\<lambda>x :: u32. x * MUR_C1)"
    by (rule inj_mult_unit [where c' = "0xdee13bb1"]) (simp add: MUR_C1_def)
  have m2: "inj (\<lambda>x :: u32. x * MUR_C2)"
    by (rule inj_mult_unit [where c' = "0x56ed309b"]) (simp add: MUR_C2_def)
  show ?thesis
    unfolding eq by (intro inj_compose inj_rotl m1 m2)
qed

lemma mix_k_inject [simp]: "mix_k a = mix_k b \<longleftrightarrow> a = b"
  using inj_mix_k by (rule inj_eq)

lemma xor_left_inject [simp]: "(a :: 'a::len word) XOR b = a XOR c \<longleftrightarrow> b = c"
  by (metis xor.assoc xor_self_eq xor.left_neutral)

lemma xor_right_inject [simp]: "(b :: 'a::len word) XOR a = c XOR a \<longleftrightarrow> b = c"
  by (metis xor.commute xor_left_inject)

lemma mix_h_step_inject: "word_rotl 13 a * 5 + 0xe6546b64 = word_rotl 13 b * 5 + (0xe6546b64 :: u32)
    \<longleftrightarrow> a = b"
proof -
  have "inj (\<lambda>x :: u32. x * 5)"
    by (rule inj_mult_unit [where c' = "0xcccccccd"]) simp
  then show ?thesis
    using inj_rotl [of 13] by (auto simp: inj_def)
qed

lemma mix_h_inject_k [simp]: "mix_h h a = mix_h h b \<longleftrightarrow> a = b"
  by (simp only: mix_h_def mix_h_step_inject xor_left_inject mix_k_inject)

lemma mix_h_inject_h [simp]: "mix_h a k = mix_h b k \<longleftrightarrow> a = b"
  by (simp only: mix_h_def mix_h_step_inject xor_right_inject)

lemma ports_word_inject:
  "(ucast (a :: u16) :: u32) OR push_bit 16 (ucast (b :: u16)) = ucast c OR push_bit 16 (ucast d)
    \<longleftrightarrow> a = c \<and> b = d"
proof
  assume eq: "(ucast a :: u32) OR push_bit 16 (ucast b) = ucast c OR push_bit 16 (ucast d)"
  have bits: "bit ((ucast x :: u32) OR push_bit 16 (ucast y)) n \<longleftrightarrow>
      n < 16 \<and> bit x n \<or> 16 \<le> n \<and> n < 32 \<and> bit y (n - 16)" for x y :: u16 and n
    using bit_imp_le_length [of x n] by (auto simp: bit_simps)
  have "bit a n = bit c n" if "n < 16" for n
    using bits [of a b n] bits [of c d n] eq that by simp
  moreover have "bit b n = bit d n" if "n < 16" for n
    using bits [of a b "n + 16"] bits [of c d "n + 16"] eq that by simp
  ultimately show "a = c \<and> b = d"
    by (auto intro!: bit_word_eqI)
qed simp

lemma len_of_u8: "LENGTH(8) = 8"
  by simp

lemma ucast_up_inject [simp]: "(ucast (a :: u8) :: u32) = ucast b \<longleftrightarrow> a = b"
proof
  assume eq: "(ucast a :: u32) = ucast b"
  have "bit (ucast x :: u32) n \<longleftrightarrow> bit x n" if "n < 8" for x :: u8 and n
    using that by (simp add: bit_simps)
  then show "a = b" using eq by (metis bit_word_eqI len_of_u8)
qed simp

text \<open>
  C39. The flow hash is a bijection of the source address and of the destination address
  when the rest of the 5-tuple is fixed, and injective in the port pair and in the
  protocol. Two flows that differ in only one of these four parts never collide, and for
  every hash value exactly one source address reaches it.
\<close>
theorem murmur3_13_single_field:
  "bij (\<lambda>s. murmur3_13 s d sp dp p) \<and> bij (\<lambda>d. murmur3_13 s d sp dp p) \<and>
   inj (\<lambda>(sp, dp). murmur3_13 s d sp dp p) \<and> inj (\<lambda>p. murmur3_13 s d sp dp p)"
proof -
  have "inj (\<lambda>s. murmur3_13 s d sp dp p)" "inj (\<lambda>d. murmur3_13 s d sp dp p)"
    by (simp_all add: inj_def murmur3_13_mix)
  moreover have "inj (\<lambda>(sp, dp). murmur3_13 s d sp dp p)" "inj (\<lambda>p. murmur3_13 s d sp dp p)"
    by (auto simp: inj_def murmur3_13_mix ports_word_inject)
  ultimately show ?thesis
    by (simp add: bij_def finite_UNIV_inj_surj)
qed

end
