(* ===== verification/SG_Maps.thy ===== *)
theory SG_Maps
  imports SG_Frame
begin

text \<open>
  \<^verbatim>\<open>sg-ebpf/src/maps.rs\<close>: the deny list lookup and the output of a frame to the ring.
  The kernel helpers and aya's map accessors are not part of the repository: they are a
  record of operations \<open>bpf_api\<close> over an abstract kernel state, and every definition of the
  kernel program takes that record as an argument. The locale \<open>bpf_maps\<close> states what their
  documentation promises. A reference kernel with the declared map sizes satisfies it.
\<close>

section \<open>The kernel interface\<close>

text \<open>
  \<^verbatim>\<open>bpf_get_smp_processor_id\<close>, \<^verbatim>\<open>bpf_ktime_get_ns\<close>, \<^verbatim>\<open>Array::get\<close> on \<^verbatim>\<open>DENY_MAP\<close>,
  \<^verbatim>\<open>PerCpuArray::get_ptr_mut\<close> on \<^verbatim>\<open>PPS_COUNTERS\<close> with the loads and stores through the
  pointer, and \<^verbatim>\<open>RingBuf::output\<close> on \<^verbatim>\<open>SIGNAL_RING\<close> with its result (an error code or unit).
\<close>

record 'k bpf_api =
  smp_processor_id :: "'k \<Rightarrow> u32"
  ktime_get_ns :: "'k \<Rightarrow> u64"
  deny_map_get :: "'k \<Rightarrow> u32 \<Rightarrow> u8 option"
  pps_get_ptr_mut :: "'k \<Rightarrow> u32 \<Rightarrow> nat option"
  load_u64 :: "'k \<Rightarrow> nat \<Rightarrow> u64"
  store_u64 :: "'k \<Rightarrow> nat \<Rightarrow> u64 \<Rightarrow> 'k"
  signal_ring_output :: "'k \<Rightarrow> u8 list \<Rightarrow> u64 \<Rightarrow> 'k \<times> (u32 + unit)"

text \<open>The sizes the map statics are declared with.\<close>

definition DENY_MAP_ENTRIES :: nat where
  "DENY_MAP_ENTRIES = 65536"

definition SIGNAL_RING_BYTES :: nat where
  "SIGNAL_RING_BYTES = 262144"

section \<open>The code\<close>

definition ring_output :: "'k bpf_api \<Rightarrow> 'k \<Rightarrow> signal_frame \<Rightarrow> 'k \<times> bool" where
  "ring_output api k frame =
     (case signal_ring_output api k (frame_bytes frame) 0 of (k', r) \<Rightarrow> (k', \<not> isl r))"

definition deny_idx :: "u64 \<Rightarrow> u32" where
  "deny_idx fh = (ucast fh :: u32) AND 0xFFFF"

definition deny_check :: "'k bpf_api \<Rightarrow> 'k \<Rightarrow> u64 \<Rightarrow> bool" where
  "deny_check api k fh =
     (case deny_map_get api k (deny_idx fh) of
        Some val \<Rightarrow> val \<noteq> 0
      | None \<Rightarrow> False)"

lemma deny_idx_mod: "unat (deny_idx fh) = unat fh mod DENY_MAP_ENTRIES"
proof -
  have "(0xFFFF :: u32) = mask 16"
    by (simp add: mask_eq_exp_minus_1)
  then have "deny_idx fh = take_bit 16 (ucast fh)"
    by (simp add: deny_idx_def take_bit_eq_mask)
  then have "unat (deny_idx fh) = take_bit 16 (take_bit 32 (unat fh))"
    by (simp add: unsigned_take_bit_eq unsigned_ucast_eq)
  then show ?thesis
    by (simp add: DENY_MAP_ENTRIES_def take_bit_eq_mod mod_mod_cancel)
qed

lemma deny_idx_bound: "unat (deny_idx fh) < DENY_MAP_ENTRIES"
  by (simp add: deny_idx_mod DENY_MAP_ENTRIES_def)

section \<open>The contract of the kernel interface\<close>

text \<open>
  \<open>deny\<close>, \<open>pps\<close> and \<open>records\<close> read the three maps off a kernel state: the deny bytes, the
  slot of the executing CPU and the history of all records committed to the ring. \<open>kinv\<close> is
  the well-formedness of kernel states.
\<close>

locale bpf_maps =
  fixes api :: "'k bpf_api"
    and kinv :: "'k \<Rightarrow> bool"
    and deny :: "'k \<Rightarrow> u8 list"
    and pps :: "'k \<Rightarrow> u64"
    and records :: "'k \<Rightarrow> u8 list list"
  assumes deny_get: "kinv k \<Longrightarrow> deny_map_get api k i =
      (if unat i < DENY_MAP_ENTRIES then Some (deny k ! unat i) else None)"
    and pps_slot: "kinv k \<Longrightarrow> \<exists>p. pps_get_ptr_mut api k 0 = Some p"
    and pps_load: "kinv k \<Longrightarrow> pps_get_ptr_mut api k 0 = Some p \<Longrightarrow> load_u64 api k p = pps k"
    and pps_store: "kinv k \<Longrightarrow> pps_get_ptr_mut api k 0 = Some p \<Longrightarrow>
      kinv (store_u64 api k p v) \<and> pps (store_u64 api k p v) = v \<and>
      deny (store_u64 api k p v) = deny k \<and> records (store_u64 api k p v) = records k"
    and ring_out: "kinv k \<Longrightarrow> signal_ring_output api k bs fl = (k', r) \<Longrightarrow>
      kinv k' \<and> deny k' = deny k \<and> pps k' = pps k \<and>
      records k' = (if \<not> isl r then records k @ [bs] else records k)"
begin

lemma deny_check_iff: "kinv k \<Longrightarrow> deny_check api k fh \<longleftrightarrow> deny k ! (unat fh mod DENY_MAP_ENTRIES) \<noteq> 0"
  using deny_idx_bound [of fh] by (simp add: deny_check_def deny_get deny_idx_mod)

lemma ring_output_effect:
  "kinv k \<Longrightarrow> ring_output api k f = (k', ok) \<Longrightarrow>
   kinv k' \<and> deny k' = deny k \<and> pps k' = pps k \<and>
   records k' = (if ok then records k @ [frame_bytes f] else records k)"
  by (auto simp: ring_output_def split: prod.splits dest: ring_out)

end

section \<open>A reference kernel\<close>

text \<open>
  A kernel state with the declared maps: 65536 deny bytes, one counter per CPU, and a ring
  that accepts a record while the unread records, each with its 8-byte header and rounded
  up to 8 bytes, stay below the ring size. It shows that the contract can be met.
\<close>

record kstate =
  ks_cpu :: u32
  ks_now :: u64
  ks_deny :: "u8 list"
  ks_pps :: "nat \<Rightarrow> u64"
  ks_unread :: "u8 list list"
  ks_history :: "u8 list list"

definition record_cost :: "u8 list \<Rightarrow> nat" where
  "record_cost bs = 8 + align_up (length bs) 8"

definition ref_output :: "kstate \<Rightarrow> u8 list \<Rightarrow> u64 \<Rightarrow> kstate \<times> (u32 + unit)" where
  "ref_output k bs fl =
     (if sum_list (map record_cost (ks_unread k)) + record_cost bs < SIGNAL_RING_BYTES
      then (k\<lparr>ks_unread := ks_unread k @ [bs], ks_history := ks_history k @ [bs]\<rparr>, Inr ())
      else (k, Inl 11))"

definition ref_bpf :: "kstate bpf_api" where
  "ref_bpf = \<lparr>
     smp_processor_id = ks_cpu,
     ktime_get_ns = ks_now,
     deny_map_get = (\<lambda>k i. if unat i < DENY_MAP_ENTRIES then Some (ks_deny k ! unat i) else None),
     pps_get_ptr_mut = (\<lambda>k i. if i = 0 then Some (unat (ks_cpu k)) else None),
     load_u64 = ks_pps,
     store_u64 = (\<lambda>k p v. k\<lparr>ks_pps := (ks_pps k)(p := v)\<rparr>),
     signal_ring_output = ref_output\<rparr>"

definition ref_inv :: "kstate \<Rightarrow> bool" where
  "ref_inv k \<longleftrightarrow> length (ks_deny k) = DENY_MAP_ENTRIES"

definition ref_pps :: "kstate \<Rightarrow> u64" where
  "ref_pps k = ks_pps k (unat (ks_cpu k))"

lemma ref_bpf_maps: "bpf_maps ref_bpf ref_inv ks_deny ref_pps ks_history"
  by unfold_locales
    (auto simp: ref_bpf_def ref_inv_def ref_pps_def ref_output_def split: if_splits)

interpretation rk: bpf_maps ref_bpf ref_inv ks_deny ref_pps ks_history
  by (rule ref_bpf_maps)

definition boot :: "u32 \<Rightarrow> u64 \<Rightarrow> kstate" where
  "boot cpu now = \<lparr>ks_cpu = cpu, ks_now = now, ks_deny = replicate 65536 0, ks_pps = (\<lambda>_. 0),
     ks_unread = [], ks_history = []\<rparr>"

lemma ref_inv_boot [simp]: "ref_inv (boot cpu now)"
  by (simp add: ref_inv_def boot_def DENY_MAP_ENTRIES_def)

section \<open>Properties\<close>

text \<open>
  C33. The deny index is always inside the map, so the lookup never misses: under the map
  contract a flow is denied exactly when its byte at \<open>flow_hash mod 65536\<close> is set, and two
  flows whose hashes agree in the low 16 bits are always denied together.
\<close>

theorem deny_check_correct:
  assumes "bpf_maps api kinv deny pps records" and "kinv k"
  shows "(deny_check api k fh \<longleftrightarrow> deny k ! (unat fh mod 65536) \<noteq> 0) \<and>
    deny_map_get api k (deny_idx fh) \<noteq> None \<and>
    (unat fh mod 65536 = unat gh mod 65536 \<longrightarrow> deny_check api k fh = deny_check api k gh)"
  using assms(2) deny_idx_bound [of fh] bpf_maps.deny_check_iff [OF assms]
    bpf_maps.deny_get [OF assms]
  by (simp add: DENY_MAP_ENTRIES_def)

theorem deny_check_correct_witness:
  "let k = (boot 0 0)\<lparr>ks_deny := (replicate 65536 0)[7 := 1]\<rparr>
   in deny_check ref_bpf k 7 \<and> deny_check ref_bpf k 65543 \<and> \<not> deny_check ref_bpf k 8"
proof -
  let ?k = "(boot 0 0)\<lparr>ks_deny := (replicate 65536 0)[7 := 1]\<rparr>"
  have kinv: "ref_inv ?k"
    by (simp add: ref_inv_def DENY_MAP_ENTRIES_def)
  note c = deny_check_correct [OF ref_bpf_maps kinv]
  from c [of 7 0] c [of 65543 0] c [of 8 0] show ?thesis
    by (simp add: Let_def)
qed

end
