(* ===== verification/SG_Filter.thy ===== *)
theory SG_Filter
  imports SG_Hash SG_ProtoView SG_Maps
begin

text \<open>
  \<^verbatim>\<open>sg-ebpf/src/filter.rs\<close>: the selection of a parsed packet by the deny list and the
  per-CPU packet counter.
\<close>

section \<open>The code\<close>

definition MAXPPS_THRESHOLD :: u64 where
  "MAXPPS_THRESHOLD = 1000000"

record filter_result =
  fr_flow_hash :: u64
  fr_pps_delta :: u32

text \<open>The hash of the view's 5-tuple, widened to 64 bits (\<^verbatim>\<open>murmur3_13(...) as u64\<close>).\<close>

definition view_hash :: "proto_view \<Rightarrow> u64" where
  "view_hash view =
     ucast (murmur3_13 (src_ip view) (dst_ip view) (src_port view) (dst_port view) (proto view))"

definition select :: "'k bpf_api \<Rightarrow> 'k \<Rightarrow> proto_view \<Rightarrow> 'k \<times> filter_result option" where
  "select api k view =
     (let fh = view_hash view in
      if deny_check api k fh then (k, None)
      else
        case pps_get_ptr_mut api k 0 of
          None \<Rightarrow> (k, None)
        | Some ctr \<Rightarrow>
            let val = load_u64 api k ctr in
            if val \<ge> MAXPPS_THRESHOLD then (k, None)
            else
              let k' = store_u64 api k ctr (saturating_add val 1);
                  delta = ucast (min val 0xFFFFFFFF)
              in (k', Some \<lparr>fr_flow_hash = fh, fr_pps_delta = delta\<rparr>))"

section \<open>What selection does\<close>

lemma unat_MAXPPS [simp]: "unat MAXPPS_THRESHOLD = 1000000"
  by (simp add: MAXPPS_THRESHOLD_def)

lemma unat_view_hash: "unat (view_hash v) < 2 ^ 32"
  by (simp add: view_hash_def unsigned_ucast_eq take_bit_nat_eq_self less_trans [OF unat_lt_2p32])

lemma saturating_add_1:
  "v < MAXPPS_THRESHOLD \<Longrightarrow> saturating_add v 1 = v + 1 \<and> unat (v + 1) = Suc (unat v)"
proof -
  assume "v < MAXPPS_THRESHOLD"
  then have "unat v < 1000000"
    by (simp add: word_less_nat_alt)
  then show ?thesis
    by (simp add: saturating_add_def unat_word_ariths)
qed

lemma delta_of_counter:
  assumes "v < MAXPPS_THRESHOLD"
  shows "unat (ucast (min v 0xFFFFFFFF :: u64) :: u32) = unat v"
proof -
  have v: "unat v < 1000000"
    using assms by (simp add: word_less_nat_alt)
  then have "v \<le> 0xFFFFFFFF"
    by (simp add: word_le_nat_alt)
  then show ?thesis
    using v by (simp add: min_def unsigned_ucast_eq take_bit_nat_eq_self)
qed

text \<open>Facts that hold for every kernel interface, with no contract.\<close>

lemma select_Some:
  assumes "select api k view = (k', Some r)"
  shows "fr_flow_hash r = view_hash view \<and> unat (fr_pps_delta r) < 1000000 \<and>
    \<not> deny_check api k (view_hash view)"
proof -
  from assms obtain ctr where r: "\<not> deny_check api k (view_hash view)"
    "load_u64 api k ctr < MAXPPS_THRESHOLD"
    "r = \<lparr>fr_flow_hash = view_hash view,
          fr_pps_delta = ucast (min (load_u64 api k ctr) 0xFFFFFFFF)\<rparr>"
    by (auto simp: select_def Let_def not_le split: if_splits option.splits)
  have "unat (fr_pps_delta r) = unat (load_u64 api k ctr)"
    by (simp only: r(3) filter_result.select_convs delta_of_counter [OF r(2)])
  with r show ?thesis
    by (simp add: word_less_nat_alt)
qed

section \<open>Selection under the map contract\<close>

text \<open>The abstract decision: not denied and below the threshold.\<close>

definition passes :: "u8 list \<Rightarrow> u64 \<Rightarrow> u64 \<Rightarrow> bool" where
  "passes deny count fh \<longleftrightarrow> deny ! (unat fh mod 65536) = 0 \<and> unat count < 1000000"

context bpf_maps
begin

lemma select_spec:
  assumes "kinv k" and "select api k view = (k', res)"
  shows "if passes (deny k) (pps k) (view_hash view)
    then kinv k' \<and> pps k' = pps k + 1 \<and> unat (pps k') = Suc (unat (pps k)) \<and> deny k' = deny k \<and>
      records k' = records k \<and>
      (\<exists>r. res = Some r \<and> fr_flow_hash r = view_hash view \<and> unat (fr_pps_delta r) = unat (pps k))
    else k' = k \<and> res = None"
proof -
  obtain p where p: "pps_get_ptr_mut api k 0 = Some p"
    using pps_slot [OF assms(1)] by auto
  note load = pps_load [OF assms(1) p] and st = pps_store [OF assms(1) p]
  have deny: "deny_check api k (view_hash view) \<longleftrightarrow> deny k ! (unat (view_hash view) mod 65536) \<noteq> 0"
    using deny_check_iff [OF assms(1)] by (simp add: DENY_MAP_ENTRIES_def)
  show ?thesis
  proof (cases "passes (deny k) (pps k) (view_hash view)")
    case True
    then have c: "pps k < MAXPPS_THRESHOLD" and d: "\<not> deny_check api k (view_hash view)"
      by (simp_all add: passes_def deny word_less_nat_alt)
    from c have "\<not> MAXPPS_THRESHOLD \<le> pps k" by simp
    then show ?thesis
      using True assms(2) d p load st saturating_add_1 [OF c] delta_of_counter [OF c]
      by (auto simp: select_def Let_def)
  next
    case False
    then have "deny_check api k (view_hash view) \<or> MAXPPS_THRESHOLD \<le> pps k"
      by (auto simp: passes_def deny word_le_nat_alt)
    then show ?thesis
      using False assms(2) p load by (auto simp: select_def Let_def split: if_splits)
  qed
qed

end

section \<open>Properties\<close>

text \<open>
  C9. Selection on every branch, under the map contract. A denied flow or an exhausted
  counter gives no result and leaves the kernel state untouched, so a denied flow never
  counts against the rate limit. Otherwise the counter grows by exactly one without
  wrapping, the deny list and the ring are untouched, and the reported delta is the counter's
  value before the packet, below the threshold.
\<close>

theorem select_correct:
  assumes "bpf_maps api kinv deny pps records" and "kinv k" and "select api k view = (k', res)"
  shows "if passes (deny k) (pps k) (view_hash view)
    then pps k' = pps k + 1 \<and> unat (pps k') = Suc (unat (pps k)) \<and> deny k' = deny k \<and>
      records k' = records k \<and>
      (\<exists>r. res = Some r \<and> fr_flow_hash r = view_hash view \<and>
        unat (fr_pps_delta r) = unat (pps k) \<and> unat (fr_pps_delta r) < 1000000)
    else k' = k \<and> res = None"
  using bpf_maps.select_spec [OF assms] by (auto simp: passes_def split: if_splits)

definition sample_view :: proto_view where
  "sample_view = \<lparr>src_ip = 1, dst_ip = 2, src_port = 3, dst_port = 4, proto = 6,
     pv_l3_hdr = replicate 20 0\<rparr>"

theorem select_correct_witness:
  "ref_pps (fst (select ref_bpf (boot 0 0) sample_view)) = 1 \<and>
   (\<exists>r. snd (select ref_bpf (boot 0 0) sample_view) = Some r \<and> unat (fr_pps_delta r) = 0)"
proof -
  have pps: "ref_pps (boot 0 0) = 0" and deny: "ks_deny (boot 0 0) = replicate 65536 0"
    by (simp_all add: ref_pps_def boot_def)
  have ok: "passes (ks_deny (boot 0 0)) (ref_pps (boot 0 0)) (view_hash sample_view)"
    unfolding passes_def pps deny by (subst nth_replicate) simp_all
  obtain k' res where s: "select ref_bpf (boot 0 0) sample_view = (k', res)"
    by (cases "select ref_bpf (boot 0 0) sample_view")
  from select_correct [OF ref_bpf_maps ref_inv_boot s] ok s pps show ?thesis
    by auto
qed

end
