(* ===== verification/SG_Xdp.thy ===== *)
theory SG_Xdp
  imports SG_Filter
begin

text \<open>
  \<^verbatim>\<open>sg-ebpf/src/main.rs\<close>: the XDP entry point. The handler is split where another CPU can
  interleave: \<open>xdp_prepare\<close> is everything up to the finished frame on the stack, \<open>xdp_commit\<close>
  the single output to the shared ring. \<open>xdp_ingress\<close> composes them as the code does. The
  outer option is the memory fault of \<open>inspect\<close>.
\<close>

section \<open>The code\<close>

datatype xdp_action = XDP_ABORTED | XDP_DROP | XDP_PASS | XDP_TX | XDP_REDIRECT

definition pass_cold :: xdp_action where
  "pass_cold = XDP_PASS"

text \<open>\<^verbatim>\<open>ptr::copy_nonoverlapping(src, dst, n)\<close> on arrays: the first \<open>n\<close> bytes are overwritten.\<close>

definition copy_bytes :: "u8 list \<Rightarrow> u8 list \<Rightarrow> nat \<Rightarrow> u8 list" where
  "copy_bytes src dst n = take n src @ drop n dst"

definition build_frame :: "u64 \<Rightarrow> u32 \<Rightarrow> proto_view \<Rightarrow> filter_result \<Rightarrow> signal_frame" where
  "build_frame now cpu view r =
     (let frame = zeroed;
          frame = frame\<lparr>flow_hash := fr_flow_hash r\<rparr>;
          frame = frame\<lparr>timestamp_ns := now\<rparr>;
          frame = frame\<lparr>l3_hdr := copy_bytes (pv_l3_hdr view) (l3_hdr frame) 20\<rparr>;
          frame = frame\<lparr>l4_flags := ucast (drop_bit 32 (fr_flow_hash r))\<rparr>;
          frame = frame\<lparr>pps_delta := fr_pps_delta r\<rparr>;
          frame = frame\<lparr>cpu_id := cpu\<rparr>
      in frame)"

definition xdp_prepare :: "'k bpf_api \<Rightarrow> 'k \<Rightarrow> xdp_ctx \<Rightarrow> ('k \<times> signal_frame option) option" where
  "xdp_prepare api k ctx =
     (let cpu = smp_processor_id api k in
      case inspect ctx of
        None \<Rightarrow> None
      | Some None \<Rightarrow> Some (k, None)
      | Some (Some view) \<Rightarrow>
          (case select api k view of
             (k1, None) \<Rightarrow> Some (k1, None)
           | (k1, Some r) \<Rightarrow> Some (k1, Some (build_frame (ktime_get_ns api k1) cpu view r))))"

definition xdp_commit :: "'k bpf_api \<Rightarrow> 'k \<Rightarrow> signal_frame \<Rightarrow> 'k \<times> xdp_action" where
  "xdp_commit api k frame =
     (case ring_output api k frame of
        (k', ok) \<Rightarrow> if \<not> ok then (k', pass_cold) else (k', XDP_PASS))"

definition xdp_ingress :: "'k bpf_api \<Rightarrow> 'k \<Rightarrow> xdp_ctx \<Rightarrow> ('k \<times> xdp_action) option" where
  "xdp_ingress api k ctx =
     (case xdp_prepare api k ctx of
        None \<Rightarrow> None
      | Some (k1, None) \<Rightarrow> Some (k1, pass_cold)
      | Some (k1, Some frame) \<Rightarrow> Some (xdp_commit api k1 frame))"

section \<open>Shape of the frame\<close>

definition emitted_shape :: "signal_frame \<Rightarrow> bool" where
  "emitted_shape f \<longleftrightarrow> frame_wf f \<and> pad f = replicate 16 0 \<and> l4_flags f = 0 \<and>
     unat (pps_delta f) < 1000000 \<and> unat (flow_hash f) < 2 ^ 32"

lemma parse_packet_header: "parse_packet pkt = Some v \<Longrightarrow> length (pv_l3_hdr v) = 20"
  by (auto simp: parse_packet_def signal_packet_def split: if_splits)

lemma build_frame_shape:
  assumes "length (pv_l3_hdr v) = 20" and "fr_flow_hash r = view_hash v"
    and "unat (fr_pps_delta r) < 1000000"
  shows "emitted_shape (build_frame now cpu v r)"
proof -
  have "unat (drop_bit 32 (view_hash v)) = 0"
    using unat_view_hash [of v] by (simp only: unat_drop_bit_eq) (simp add: drop_bit_eq_div)
  then have "drop_bit 32 (view_hash v) = 0"
    by (simp add: unat_eq_zero)
  then show ?thesis
    using assms unat_view_hash [of v]
    by (simp add: emitted_shape_def build_frame_def frame_wf_def zeroed_def copy_bytes_def Let_def)
qed

lemma xdp_prepare_cases:
  "xdp_prepare api k ctx =
     Some (case parse_packet (packet ctx) of
        None \<Rightarrow> (k, None)
      | Some v \<Rightarrow> (case select api k v of
            (k1, None) \<Rightarrow> (k1, None)
          | (k1, Some r) \<Rightarrow>
              (k1, Some (build_frame (ktime_get_ns api k1) (smp_processor_id api k) v r))))"
  by (simp add: xdp_prepare_def inspect_parse Let_def split: option.split prod.split)

section \<open>Properties\<close>

text \<open>
  C15. The program never drops wire traffic and never faults: whatever the kernel
  interface answers (no contract is assumed), every invocation on every packet window
  returns \<^verbatim>\<open>XDP_PASS\<close>.
\<close>

theorem xdp_always_passes: "\<exists>k'. xdp_ingress api k ctx = Some (k', XDP_PASS)"
  by (simp add: xdp_ingress_def xdp_prepare_cases xdp_commit_def pass_cold_def
      split: option.split prod.split)

text \<open>
  C32. Every frame the handler prepares is well formed, has zero padding and a delta below
  the threshold; its hash is below \<open>2 ^ 32\<close>, so the \<open>l4_flags\<close> field, computed as
  the high half of that hash, is always 0. The TCP flags and the protocol that
  \<^verbatim>\<open>signal_frame.rs\<close> documents for the field are never stored.
\<close>

theorem prepared_frame_shape:
  assumes "xdp_prepare api k ctx = Some (k', Some f)"
  shows "frame_wf f \<and> pad f = replicate 16 0 \<and> l4_flags f = 0 \<and>
    unat (pps_delta f) < 1000000 \<and> unat (flow_hash f) < 2 ^ 32"
proof -
  from assms obtain v r k1 where v: "parse_packet (packet ctx) = Some v"
    and s: "select api k v = (k1, Some r)"
    and f: "f = build_frame (ktime_get_ns api k1) (smp_processor_id api k) v r"
    by (auto simp: xdp_prepare_cases split: option.splits prod.splits)
  have "emitted_shape f"
    unfolding f using parse_packet_header [OF v] select_Some [OF s] by (intro build_frame_shape) auto
  then show ?thesis by (simp add: emitted_shape_def)
qed

section \<open>The handler under the map contract\<close>

text \<open>The frame the handler owes for a view, given the counter, the clock and the CPU.\<close>

definition frame_for :: "u64 \<Rightarrow> u32 \<Rightarrow> u64 \<Rightarrow> proto_view \<Rightarrow> signal_frame" where
  "frame_for now cpu count v =
     \<lparr>flow_hash = view_hash v, timestamp_ns = now, l3_hdr = pv_l3_hdr v, l4_flags = 0,
      pps_delta = ucast count, cpu_id = cpu, pad = replicate 16 0\<rparr>"

text \<open>
  What an invocation that selects the packet adds to the ring: the frame stamped with the
  clock after the selection, if the output of that frame succeeds.
\<close>

definition committed :: "'k bpf_api \<Rightarrow> 'k \<Rightarrow> u64 \<Rightarrow> proto_view \<Rightarrow> u8 list list" where
  "committed api k count v =
     (let k1 = fst (select api k v);
          f = frame_for (ktime_get_ns api k1) (smp_processor_id api k) count v
      in if snd (ring_output api k1 f) then [frame_bytes f] else [])"

lemma length_committed: "length (committed api k count v) \<le> 1"
  by (simp add: committed_def Let_def)

lemma frame_wf_frame_for [simp]: "frame_wf (frame_for now cpu count v) \<longleftrightarrow> length (pv_l3_hdr v) = 20"
  by (simp add: frame_wf_def frame_for_def)

lemma build_frame_for:
  assumes "length (pv_l3_hdr v) = 20" and "fr_flow_hash r = view_hash v"
    and "unat (fr_pps_delta r) = unat (count :: u64)" and "unat count < 1000000"
  shows "build_frame now cpu v r = frame_for now cpu count v"
proof -
  have "emitted_shape (build_frame now cpu v r)"
    using assms by (intro build_frame_shape) simp_all
  moreover have "fr_pps_delta r = ucast count"
    using assms(3,4)
    by (intro word_unat_eq_iff [THEN iffD2]) (simp add: unsigned_ucast_eq take_bit_nat_eq_self)
  ultimately show ?thesis
    using assms
    by (simp add: emitted_shape_def build_frame_def frame_for_def Let_def copy_bytes_def zeroed_def)
qed

context bpf_maps
begin

lemma prepare_effect:
  assumes "kinv k" and "xdp_prepare api k ctx = Some (k', fo)"
  shows "case parse_packet (packet ctx) of
      None \<Rightarrow> k' = k \<and> fo = None
    | Some v \<Rightarrow>
        if passes (deny k) (pps k) (view_hash v)
        then kinv k' \<and> deny k' = deny k \<and> records k' = records k \<and>
          pps k' = pps k + 1 \<and> unat (pps k') = Suc (unat (pps k)) \<and> k' = fst (select api k v) \<and>
          fo = Some (frame_for (ktime_get_ns api k') (smp_processor_id api k) (pps k) v)
        else k' = k \<and> fo = None"
proof (cases "parse_packet (packet ctx)")
  case None
  then show ?thesis
    using assms(2) by (simp add: xdp_prepare_cases)
next
  case (Some v)
  obtain k1 res where s: "select api k v = (k1, res)"
    by (cases "select api k v")
  show ?thesis
    using select_spec [OF assms(1) s] assms(2) Some s parse_packet_header [OF Some]
    by (auto simp: xdp_prepare_cases passes_def build_frame_for split: if_splits)
qed

lemma commit_effect:
  "kinv k \<Longrightarrow> xdp_commit api k f = (k', a) \<Longrightarrow>
   a = XDP_PASS \<and> kinv k' \<and> deny k' = deny k \<and> pps k' = pps k \<and>
   records k' = (if snd (ring_output api k f) then records k @ [frame_bytes f] else records k)"
  by (auto simp: xdp_commit_def pass_cold_def split: prod.splits if_splits dest: ring_output_effect)

lemma ingress_effect:
  assumes "kinv k" and "xdp_ingress api k ctx = Some (k', a)"
  shows "kinv k' \<and> deny k' = deny k \<and> (case parse_packet (packet ctx) of
      None \<Rightarrow> k' = k
    | Some v \<Rightarrow>
        if passes (deny k) (pps k) (view_hash v)
        then pps k' = pps k + 1 \<and> unat (pps k') = Suc (unat (pps k)) \<and>
          records k' = records k @ committed api k (pps k) v
        else k' = k)"
proof -
  obtain k1 fo where p: "xdp_prepare api k ctx = Some (k1, fo)"
    using assms(2) by (auto simp: xdp_ingress_def split: option.splits)
  note pe = prepare_effect [OF assms(1) p]
  show ?thesis
  proof (cases fo)
    case None
    then have "k' = k1"
      using assms(2) p by (simp add: xdp_ingress_def)
    with pe None assms(1) show ?thesis
      by (auto split: option.splits if_splits)
  next
    case (Some f)
    then have c: "xdp_commit api k1 f = (k', a)"
      using assms(2) p by (simp add: xdp_ingress_def)
    from pe Some obtain v where v: "parse_packet (packet ctx) = Some v"
      and pass: "passes (deny k) (pps k) (view_hash v)"
      by (auto split: option.splits if_splits)
    have "kinv k1 \<and> deny k1 = deny k \<and> records k1 = records k \<and>
        pps k1 = pps k + 1 \<and> unat (pps k1) = Suc (unat (pps k)) \<and> k1 = fst (select api k v) \<and>
        f = frame_for (ktime_get_ns api k1) (smp_processor_id api k) (pps k) v"
      using pe unfolding v Some option.case if_P [OF pass] option.inject .
    then have k1: "kinv k1" "deny k1 = deny k" "records k1 = records k"
      "pps k1 = pps k + 1" "unat (pps k1) = Suc (unat (pps k))" "k1 = fst (select api k v)"
      "f = frame_for (ktime_get_ns api k1) (smp_processor_id api k) (pps k) v"
      by blast+
    from commit_effect [OF k1(1) c] k1(1-5) show ?thesis
      by (simp add: v pass committed_def Let_def k1(6,7) [symmetric])
  qed
qed

lemma ingress_counts:
  assumes "kinv k" and "xdp_ingress api k ctx = Some (k', a)"
  shows "kinv k' \<and>
    (k' = k \<or> unat (pps k) < 1000000 \<and> unat (pps k') = Suc (unat (pps k)) \<and>
      length (records k') \<le> Suc (length (records k)))"
  using ingress_effect [OF assms] length_committed [of api k "pps k"]
  by (auto simp: passes_def split: option.splits if_splits)

end

section \<open>A concrete invocation\<close>

definition parsed_sample :: proto_view where
  "parsed_sample = the (parse_packet sample_packet)"

lemma parsed_sample: "parse_packet sample_packet = Some parsed_sample"
  by (simp add: parsed_sample_def parse_sample_packet)

lemma length_parsed_sample [simp]: "length (pv_l3_hdr parsed_sample) = 20"
  by (rule parse_packet_header [OF parsed_sample])

lemma boot_passes: "passes (ks_deny (boot c t)) (ref_pps (boot c t)) fh"
proof -
  have "ref_pps (boot c t) = 0" "ks_deny (boot c t) = replicate 65536 0"
    by (simp_all add: ref_pps_def boot_def)
  then show ?thesis
    unfolding passes_def by (simp only:) (subst nth_replicate, simp_all)
qed

definition booted_once :: "u32 \<Rightarrow> u64 \<Rightarrow> kstate" where
  "booted_once c t = (boot c t)\<lparr>ks_pps := (\<lambda>_. 0)(unat c := 1)\<rparr>"

lemma select_boot:
  "select ref_bpf (boot c t) v =
     (booted_once c t, Some \<lparr>fr_flow_hash = view_hash v, fr_pps_delta = 0\<rparr>)"
proof -
  have "\<not> deny_check ref_bpf (boot c t) (view_hash v)"
    using boot_passes [of c t "view_hash v"] rk.deny_check_iff [of "boot c t" "view_hash v"]
    by (simp add: passes_def DENY_MAP_ENTRIES_def)
  then show ?thesis
    by (simp add: select_def Let_def ref_bpf_def boot_def booted_once_def MAXPPS_THRESHOLD_def
        saturating_add_def)
qed

lemma prepare_boot:
  "xdp_prepare ref_bpf (boot c t) (ctx_of sample_packet) =
     Some (booted_once c t, Some (frame_for t c 0 parsed_sample))"
proof -
  have "ktime_get_ns ref_bpf (booted_once c t) = t" "smp_processor_id ref_bpf (boot c t) = c"
    by (simp_all add: ref_bpf_def booted_once_def boot_def)
  then show ?thesis
    by (simp add: xdp_prepare_cases parsed_sample select_boot build_frame_for)
qed

lemma ingress_boot:
  "xdp_ingress ref_bpf (boot c t) (ctx_of sample_packet) =
     Some ((booted_once c t)\<lparr>ks_unread := [frame_bytes (frame_for t c 0 parsed_sample)],
        ks_history := [frame_bytes (frame_for t c 0 parsed_sample)]\<rparr>, XDP_PASS)"
proof -
  have "record_cost (frame_bytes (frame_for t c 0 parsed_sample)) = 72"
    by (simp add: record_cost_def align_up_def)
  then show ?thesis
    by (simp add: xdp_ingress_def prepare_boot xdp_commit_def ring_output_def pass_cold_def)
      (simp add: ref_bpf_def ref_output_def booted_once_def boot_def SIGNAL_RING_BYTES_def)
qed

section \<open>Effect of one invocation\<close>

text \<open>
  C7. One invocation, under the map contract. Packets the parser rejects, denied flows and
  packets over the threshold leave the kernel state exactly as it was. Every other packet
  adds one to this CPU's counter and, exactly when the ring accepts the output, one record: the
  byte image of the frame with the packet's hash, the clock after the selection, the verbatim
  IPv4 header, the executing CPU and the counter before the packet. The counter advances also
  when the ring is full and the frame is lost.
\<close>

theorem xdp_ingress_effect:
  assumes "bpf_maps api kinv deny pps records" and "kinv k"
    and "xdp_ingress api k ctx = Some (k', a)"
  shows "case parse_packet (packet ctx) of
      None \<Rightarrow> k' = k
    | Some v \<Rightarrow>
        if passes (deny k) (pps k) (view_hash v)
        then deny k' = deny k \<and> pps k' = pps k + 1 \<and>
          (let k1 = fst (select api k v);
               f = frame_for (ktime_get_ns api k1) (smp_processor_id api k) (pps k) v
           in records k' = (if snd (ring_output api k1 f) then records k @ [frame_bytes f] else records k))
        else k' = k"
  using bpf_maps.ingress_effect [OF assms]
  by (auto simp: committed_def Let_def split: option.splits if_splits)

theorem xdp_ingress_effect_witness:
  "\<exists>k' now. xdp_ingress ref_bpf (boot 3 42) (ctx_of sample_packet) = Some (k', XDP_PASS) \<and>
     ref_pps k' = 1 \<and> ks_history k' = [frame_bytes (frame_for now 3 0 parsed_sample)]"
proof -
  let ?f = "frame_bytes (frame_for 42 3 0 parsed_sample)"
  have run: "xdp_ingress ref_bpf (boot 3 42) (ctx_of sample_packet) =
      Some ((booted_once 3 42)\<lparr>ks_unread := [?f], ks_history := [?f]\<rparr>, XDP_PASS)"
    by (rule ingress_boot)
  have pps: "ref_pps (boot 3 42) = 0" "ks_history (boot 3 42) = []"
    "smp_processor_id ref_bpf (boot 3 42) = 3"
    by (simp_all add: ref_pps_def boot_def ref_bpf_def)
  from xdp_ingress_effect [OF ref_bpf_maps ref_inv_boot run]
  have "ref_pps ((booted_once 3 42)\<lparr>ks_unread := [?f], ks_history := [?f]\<rparr>) = 1"
    by (simp add: parsed_sample boot_passes) (simp add: pps)
  with run show ?thesis
    by (intro exI [of _ "(booted_once 3 42)\<lparr>ks_unread := [?f], ks_history := [?f]\<rparr>"]
        exI [of _ 42]) simp
qed

theorem prepared_frame_shape_witness:
  "l4_flags (frame_for 42 3 0 parsed_sample) = 0 \<and> frame_wf (frame_for 42 3 0 parsed_sample)"
  using prepared_frame_shape [OF prepare_boot [of 3 42]] by simp


section \<open>Runs of one CPU\<close>

text \<open>
  A run of the program on one CPU: packets, and anything the rest of the system does to the
  kernel state in between (the clock, the consumer, the deny list, other CPUs' records). The
  rest of the system does not write this CPU's counter: no code of the repository does. The
  number counts the records this CPU committed.
\<close>

inductive xdp_reach ::
  "'k bpf_api \<Rightarrow> ('k \<Rightarrow> bool) \<Rightarrow> ('k \<Rightarrow> u64) \<Rightarrow> ('k \<Rightarrow> u8 list list) \<Rightarrow> 'k \<Rightarrow> nat \<Rightarrow> 'k \<Rightarrow> bool"
  for api kinv pps records where
  start: "kinv k \<Longrightarrow> xdp_reach api kinv pps records k 0 k"
| packet: "xdp_reach api kinv pps records k0 n k \<Longrightarrow> xdp_ingress api k ctx = Some (k', a) \<Longrightarrow>
    xdp_reach api kinv pps records k0 (n + (length (records k') - length (records k))) k'"
| other: "xdp_reach api kinv pps records k0 n k \<Longrightarrow> kinv k' \<Longrightarrow> pps k' = pps k \<Longrightarrow>
    xdp_reach api kinv pps records k0 n k'"

context bpf_maps
begin

lemma reach_budget:
  "xdp_reach api kinv pps records k0 n k \<Longrightarrow>
   kinv k \<and> unat (pps k0) + n \<le> unat (pps k) \<and> unat (pps k) \<le> max (unat (pps k0)) 1000000"
proof (induction rule: xdp_reach.induct)
  case (packet k0 n k ctx k' a)
  then show ?case
    using ingress_counts [of k ctx k' a] by auto
qed auto

end

text \<open>
  C22. The threshold is a lifetime budget, not a rate: over any run, of any length and
  duration, a CPU whose counter starts at \<open>c\<close> commits at most \<open>1000000 - c\<close> frames, and the
  counter never passes the threshold. Nothing ever resets it.
\<close>

theorem frame_budget:
  assumes "bpf_maps api kinv deny pps records" and "xdp_reach api kinv pps records k0 n k"
  shows "n \<le> 1000000 - unat (pps k0) \<and> unat (pps k) \<le> max (unat (pps k0)) 1000000"
  using bpf_maps.reach_budget [OF assms] by (auto simp: max_def split: if_splits)

theorem frame_budget_witness:
  "\<exists>k'. xdp_reach ref_bpf ref_inv ref_pps ks_history (boot 0 0) 1 k' \<and>
     1 \<le> 1000000 - unat (ref_pps (boot 0 0)) \<and> unat (ref_pps k') \<le> 1000000"
proof -
  let ?f = "frame_bytes (frame_for 0 0 0 parsed_sample)"
  let ?k = "(booted_once 0 0)\<lparr>ks_unread := [?f], ks_history := [?f]\<rparr>"
  have "xdp_reach ref_bpf ref_inv ref_pps ks_history (boot 0 0)
      (0 + (length (ks_history ?k) - length (ks_history (boot 0 0)))) ?k"
    by (rule xdp_reach.packet [OF xdp_reach.start ingress_boot]) simp
  then have r: "xdp_reach ref_bpf ref_inv ref_pps ks_history (boot 0 0) 1 ?k"
    by (simp add: boot_def)
  have "unat (ref_pps (boot 0 0)) = 0"
    by (simp add: ref_pps_def boot_def)
  with r frame_budget [OF ref_bpf_maps r] show ?thesis
    by (intro exI [of _ ?k]) (simp add: max_def)
qed

end
