(* ===== verification/SG_Metrics.thy ===== *)
theory SG_Metrics
  imports SG_Frame "HOL-Library.Monad_Syntax"
begin

text \<open>
  \<^verbatim>\<open>sg-capture/src/metrics.rs\<close>: the per-CPU counters, their aggregation, the integer
  drop-rate and the one-second reporter. An atomic counter is its \<^verbatim>\<open>u64\<close> value;
  \<^verbatim>\<open>fetch_add\<close> wraps. The checked arithmetic of \<^verbatim>\<open>Iterator::sum\<close> depends on the build
  profile, so the aggregation takes the profile's overflow-check setting as an argument: an
  overflow panics (\<open>None\<close>) with checks and wraps without.
\<close>

section \<open>Counters\<close>

record metrics =
  frames_ok :: "u64 list"
  frames_dropped :: "u64 list"
  channel_full :: "u64 list"

definition metrics_new :: metrics where
  "metrics_new = \<lparr>frames_ok = replicate NCPU 0, frames_dropped = replicate NCPU 0,
     channel_full = replicate NCPU 0\<rparr>"

definition fetch_add_1 :: "u64 list \<Rightarrow> nat \<Rightarrow> u64 list" where
  "fetch_add_1 xs i = xs[i := xs ! i + 1]"

definition record_ok :: "metrics \<Rightarrow> nat \<Rightarrow> metrics" where
  "record_ok m cpu = (if cpu < NCPU then m\<lparr>frames_ok := fetch_add_1 (frames_ok m) cpu\<rparr> else m)"

definition record_drop :: "metrics \<Rightarrow> nat \<Rightarrow> metrics" where
  "record_drop m cpu =
     (if cpu < NCPU then m\<lparr>frames_dropped := fetch_add_1 (frames_dropped m) cpu\<rparr> else m)"

definition record_channel_full :: "metrics \<Rightarrow> nat \<Rightarrow> metrics" where
  "record_channel_full m cpu =
     (if cpu < NCPU then m\<lparr>channel_full := fetch_add_1 (channel_full m) cpu\<rparr> else m)"

definition metrics_wf :: "metrics \<Rightarrow> bool" where
  "metrics_wf m \<longleftrightarrow> length (frames_ok m) = NCPU \<and> length (frames_dropped m) = NCPU \<and>
     length (channel_full m) = NCPU"

definition ok_at :: "metrics \<Rightarrow> nat \<Rightarrow> u64" where
  "ok_at m cpu = frames_ok m ! cpu"

definition drop_at :: "metrics \<Rightarrow> nat \<Rightarrow> u64" where
  "drop_at m cpu = frames_dropped m ! cpu"

definition full_at :: "metrics \<Rightarrow> nat \<Rightarrow> u64" where
  "full_at m cpu = channel_full m ! cpu"

lemma metrics_wf_new [simp]: "metrics_wf metrics_new"
  by (simp add: metrics_wf_def metrics_new_def)

lemma metrics_new_at [simp]:
  "cpu < NCPU \<Longrightarrow> ok_at metrics_new cpu = 0 \<and> drop_at metrics_new cpu = 0 \<and> full_at metrics_new cpu = 0"
  by (simp add: metrics_new_def ok_at_def drop_at_def full_at_def)

section \<open>The counter interface\<close>

text \<open>
  What the vacuum and dispatch layers rely on: an event bumps its own counter of the given
  CPU by one and touches nothing else, and an event for a CPU out of range does nothing.
\<close>

locale event_counter =
  fixes bump :: "'m \<Rightarrow> nat \<Rightarrow> 'm"
    and wf :: "'m \<Rightarrow> bool"
    and at :: "'m \<Rightarrow> nat \<Rightarrow> u64"
    and n :: nat
  assumes wf_bump: "wf m \<Longrightarrow> wf (bump m c)"
    and at_bump: "wf m \<Longrightarrow> c < n \<Longrightarrow> c' < n \<Longrightarrow> at (bump m c) c' = (if c' = c then at m c + 1 else at m c')"
    and bump_out_of_range: "n \<le> c \<Longrightarrow> bump m c = m"
begin

lemma bumps:
  "wf m \<Longrightarrow> c < n \<Longrightarrow> c' < n \<Longrightarrow>
   wf (((\<lambda>m. bump m c) ^^ k) m) \<and>
   at (((\<lambda>m. bump m c) ^^ k) m) c' = (if c' = c then at m c + of_nat k else at m c')"
  by (induction k) (auto simp: wf_bump at_bump)

lemma bumps_out_of_range: "n \<le> c \<Longrightarrow> ((\<lambda>m. bump m c) ^^ k) m = m"
  by (induction k) (auto simp: bump_out_of_range)

end

text \<open>Two counters of the same state that do not interfere.\<close>

locale independent_counters = event_counter bump wf at n
  for bump :: "'m \<Rightarrow> nat \<Rightarrow> 'm" and wf at n +
  fixes at2 :: "'m \<Rightarrow> nat \<Rightarrow> u64"
  assumes at2_bump: "at2 (bump m c) = at2 m"
begin

lemma at2_bumps: "at2 (((\<lambda>m. bump m c) ^^ k) m) = at2 m"
  by (induction k) (auto simp: at2_bump)

end

lemmas counter_defs = record_ok_def record_drop_def record_channel_full_def fetch_add_1_def
  metrics_wf_def ok_at_def drop_at_def full_at_def

interpretation mok: event_counter record_ok metrics_wf ok_at NCPU
  by unfold_locales (auto simp: counter_defs)

interpretation mdrop: event_counter record_drop metrics_wf drop_at NCPU
  by unfold_locales (auto simp: counter_defs)

interpretation mfull: event_counter record_channel_full metrics_wf full_at NCPU
  by unfold_locales (auto simp: counter_defs)

interpretation ok_drop: independent_counters record_ok metrics_wf ok_at NCPU drop_at
  by unfold_locales (auto simp: counter_defs fun_eq_iff)

interpretation ok_full: independent_counters record_ok metrics_wf ok_at NCPU full_at
  by unfold_locales (auto simp: counter_defs fun_eq_iff)

interpretation drop_ok: independent_counters record_drop metrics_wf drop_at NCPU ok_at
  by unfold_locales (auto simp: counter_defs fun_eq_iff)

interpretation drop_full: independent_counters record_drop metrics_wf drop_at NCPU full_at
  by unfold_locales (auto simp: counter_defs fun_eq_iff)

interpretation full_ok: independent_counters record_channel_full metrics_wf full_at NCPU ok_at
  by unfold_locales (auto simp: counter_defs fun_eq_iff)

interpretation full_drop: independent_counters record_channel_full metrics_wf full_at NCPU drop_at
  by unfold_locales (auto simp: counter_defs fun_eq_iff)

lemmas counter_frame [simp] = ok_drop.at2_bump ok_full.at2_bump drop_ok.at2_bump
  drop_full.at2_bump full_ok.at2_bump full_drop.at2_bump

lemmas counter_wf [simp, intro] = mok.wf_bump mdrop.wf_bump mfull.wf_bump

text \<open>
  The three event counters: recording any number of events of one kind for a CPU keeps
  the block well formed, adds exactly that number, modulo \<open>2 ^ 64\<close>, to that CPU's counter of
  that kind, and leaves every other CPU and the two other kinds unchanged. Recording for a
  CPU id of 32 or more changes nothing.
\<close>

theorem counters_count:
  assumes "metrics_wf m" and "c' < NCPU"
    and "m' = ((\<lambda>m. record_ok m c) ^^ a) (((\<lambda>m. record_drop m c) ^^ b)
      (((\<lambda>m. record_channel_full m c) ^^ d) m))"
  shows "metrics_wf m' \<and>
    ok_at m' c' = ok_at m c' + (if c' = c then of_nat a else 0) \<and>
    drop_at m' c' = drop_at m c' + (if c' = c then of_nat b else 0) \<and>
    full_at m' c' = full_at m c' + (if c' = c then of_nat d else 0) \<and>
    (NCPU \<le> c \<longrightarrow> m' = m)"
proof (cases "c < NCPU")
  case True
  define m1 where "m1 = ((\<lambda>m. record_channel_full m c) ^^ d) m"
  define m2 where "m2 = ((\<lambda>m. record_drop m c) ^^ b) m1"
  have m1: "metrics_wf m1" "full_at m1 c' = (if c' = c then full_at m c + of_nat d else full_at m c')"
    using mfull.bumps [OF assms(1) True assms(2)] by (auto simp: m1_def)
  have m2: "metrics_wf m2" "drop_at m2 c' = (if c' = c then drop_at m1 c + of_nat b else drop_at m1 c')"
    using mdrop.bumps [OF m1(1) True assms(2)] by (auto simp: m2_def)
  have m': "m' = ((\<lambda>m. record_ok m c) ^^ a) m2"
    by (simp add: assms(3) m1_def m2_def)
  show ?thesis
    using True m1 m2 mok.bumps [OF m2(1) True assms(2), of a]
    by (auto simp: m' ok_drop.at2_bumps ok_full.at2_bumps)
      (auto simp: m1_def m2_def drop_ok.at2_bumps drop_full.at2_bumps full_ok.at2_bumps
        full_drop.at2_bumps)
next
  case False
  then show ?thesis
    using assms by (auto simp: mok.bumps_out_of_range mdrop.bumps_out_of_range mfull.bumps_out_of_range)
qed

theorem counters_count_witness:
  "ok_at (record_ok (record_drop (record_channel_full metrics_new 5) 5) 5) 5 = 1 \<and>
   drop_at (record_ok (record_drop (record_channel_full metrics_new 5) 5) 5) 6 = 0"
proof -
  have c: "(5 :: nat) < NCPU" "(6 :: nat) < NCPU"
    by (simp_all add: NCPU_def)
  note t = counters_count [OF metrics_wf_new _ refl, where c = 5 and a = 1 and b = 1 and d = 1]
  from t [OF c(1)] t [OF c(2)] c show ?thesis by simp
qed

section \<open>Aggregation\<close>

fun sum_u64 :: "bool \<Rightarrow> u64 \<Rightarrow> u64 list \<Rightarrow> u64 option" where
  "sum_u64 checks acc [] = Some acc"
| "sum_u64 checks acc (x # xs) =
     (if checks \<and> 2 ^ 64 \<le> unat acc + unat x then None else sum_u64 checks (acc + x) xs)"

definition totals :: "bool \<Rightarrow> metrics \<Rightarrow> (u64 \<times> u64 \<times> u64) option" where
  "totals checks m =
     do { ok \<leftarrow> sum_u64 checks 0 (frames_ok m);
          dr \<leftarrow> sum_u64 checks 0 (frames_dropped m);
          full \<leftarrow> sum_u64 checks 0 (channel_full m);
          Some (ok, dr, full) }"

lemma sum_u64_unchecked: "sum_u64 False acc xs = Some (acc + sum_list xs)"
  by (induction xs arbitrary: acc) (simp_all add: add.assoc)

lemma sum_u64_checked:
  "unat acc + sum_list (map unat xs) < 2 ^ 64 \<Longrightarrow>
   sum_u64 checks acc xs = Some (acc + sum_list xs) \<and>
   unat (acc + sum_list xs) = unat acc + sum_list (map unat xs)"
proof (induction xs arbitrary: acc)
  case Nil
  then show ?case by simp
next
  case (Cons x xs)
  then have "unat (acc + x) = unat acc + unat x"
    by (simp add: unat_word_ariths)
  with Cons.IH [of "acc + x"] Cons.prems show ?case
    by (simp add: add.assoc)
qed

lemma sum_u64_overflow:
  "unat acc < 2 ^ 64 \<Longrightarrow> 2 ^ 64 \<le> unat acc + sum_list (map unat xs) \<Longrightarrow> sum_u64 True acc xs = None"
proof (induction xs arbitrary: acc)
  case Nil
  then show ?case by simp
next
  case (Cons x xs)
  show ?case
  proof (cases "2 ^ 64 \<le> unat acc + unat x")
    case True
    then show ?thesis by simp
  next
    case False
    then have "unat (acc + x) = unat acc + unat x"
      by (simp add: unat_word_ariths)
    with Cons.IH [of "acc + x"] Cons.prems False show ?thesis
      by (simp add: add.assoc)
  qed
qed

lemma sum_u64_result:
  "sum_u64 True acc xs =
     (if unat acc + sum_list (map unat xs) < 2 ^ 64 then Some (acc + sum_list xs) else None)"
proof (cases "unat acc + sum_list (map unat xs) < 2 ^ 64")
  case True
  then show ?thesis using sum_u64_checked [of acc xs True] by simp
next
  case False
  moreover have "unat acc < 2 ^ 64"
    using unsigned_less [of acc] by simp
  ultimately show ?thesis using sum_u64_overflow [of acc xs] by simp
qed

lemma totals_unchecked:
  "totals False m = Some (sum_list (frames_ok m), sum_list (frames_dropped m), sum_list (channel_full m))"
  by (simp add: totals_def sum_u64_unchecked)

lemma totals_checked:
  "totals True m =
     (if sum_list (map unat (frames_ok m)) < 2 ^ 64 \<and>
         sum_list (map unat (frames_dropped m)) < 2 ^ 64 \<and>
         sum_list (map unat (channel_full m)) < 2 ^ 64
      then totals False m else None)"
  by (auto simp: totals_def sum_u64_unchecked sum_u64_result simp del: sum_u64.simps)

text \<open>
  Aggregation in both build profiles. Without overflow checks it always returns the three
  sums modulo \<open>2 ^ 64\<close>; with checks it returns exactly when none of the three true sums
  reaches \<open>2 ^ 64\<close>, and then all values are the true sums.
\<close>

theorem totals_profiles:
  "totals False m = Some (sum_list (frames_ok m), sum_list (frames_dropped m), sum_list (channel_full m)) \<and>
   totals True m =
     (if sum_list (map unat (frames_ok m)) < 2 ^ 64 \<and>
         sum_list (map unat (frames_dropped m)) < 2 ^ 64 \<and>
         sum_list (map unat (channel_full m)) < 2 ^ 64
      then totals False m else None)"
  using totals_unchecked totals_checked by blast

section \<open>Drop rate\<close>

definition drop_rate_bps :: "u64 \<Rightarrow> u64 \<Rightarrow> u64" where
  "drop_rate_bps ok dr =
     (let total = saturating_add ok dr in
      if total = 0 then 0 else saturating_mul dr 10000 div total)"

lemma unat_drop_rate_bps:
  "unat (drop_rate_bps ok dr) =
     min (unat dr * 10000) (2 ^ 64 - 1) div min (unat ok + unat dr) (2 ^ 64 - 1)"
proof (cases "saturating_add ok dr = 0")
  case True
  then have "min (unat ok + unat dr) (2 ^ 64 - 1) = 0"
    by (metis unat_0 unat_saturating_add)
  then show ?thesis
    using True by (simp add: drop_rate_bps_def)
next
  case False
  have "unat (saturating_mul dr 10000) = min (unat dr * 10000) (2 ^ 64 - 1)"
    by (simp add: unat_saturating_mul)
  with False show ?thesis
    by (simp add: drop_rate_bps_def Let_def unat_div_distrib unat_saturating_add)
qed

text \<open>
  C31. The rate in basis points. It never exceeds 10000 (100 percent), it is 0 when nothing
  was processed, and it is the exact integer quotient as long as the two saturating
  operations do not saturate (fewer than \<open>2 ^ 64\<close> frames, fewer than \<open>2 ^ 64 / 10000\<close> drops).
\<close>

theorem drop_rate_bounds:
  "unat (drop_rate_bps ok dr) \<le> 10000 \<and> drop_rate_bps 0 0 = 0 \<and>
   (unat dr * 10000 < 2 ^ 64 \<and> unat ok + unat dr < 2 ^ 64 \<longrightarrow>
     unat (drop_rate_bps ok dr) = unat dr * 10000 div (unat ok + unat dr))"
proof -
  have bound: "a * 10000 div t \<le> 10000" if "a \<le> t" for a t :: nat
  proof (cases "t = 0")
    case False
    have "a * 10000 div t \<le> 10000 * t div t"
      using that by (intro div_le_mono) simp
    with False show ?thesis by simp
  qed simp
  have "min (unat dr * 10000) (2 ^ 64 - 1) div min (unat ok + unat dr) (2 ^ 64 - 1) \<le>
      unat dr * 10000 div min (unat ok + unat dr) (2 ^ 64 - 1)"
    by (rule div_le_mono) simp
  also have "\<dots> \<le> 10000"
    by (intro bound) simp
  finally have "unat (drop_rate_bps ok dr) \<le> 10000"
    by (simp only: unat_drop_rate_bps)
  moreover have "unat (drop_rate_bps ok dr) = unat dr * 10000 div (unat ok + unat dr)"
    if "unat dr * 10000 < 2 ^ 64" "unat ok + unat dr < 2 ^ 64"
    using that by (simp add: unat_drop_rate_bps min_def)
  ultimately show ?thesis
    by (simp add: drop_rate_bps_def saturating_add_def)
qed

theorem drop_rate_bounds_witness: "unat (drop_rate_bps 3 1) = 2500"
  using drop_rate_bounds [of 3 1] by simp

section \<open>The reporter\<close>

text \<open>
  The loop of \<^verbatim>\<open>spawn_reporter\<close> after each one-second sleep: leave on the shutdown
  value, otherwise aggregate, print the deltas against the previous tick and remember the
  totals. An observation is what one tick reads: the shutdown value and the counters.
\<close>

record report_line =
  rl_frames :: u64
  rl_drops :: u64
  rl_percent :: u64
  rl_hundredths :: u64
  rl_channel_full :: u64

datatype reporter_end = Running | Exited | Panicked

definition report :: "u64 \<Rightarrow> u64 \<Rightarrow> u64 \<times> u64 \<times> u64 \<Rightarrow> report_line" where
  "report prev_ok prev_drop t =
     (case t of (ok, dr, full) \<Rightarrow>
        let delta_ok = saturating_sub ok prev_ok;
            delta_drop = saturating_sub dr prev_drop;
            bps = drop_rate_bps delta_ok delta_drop
        in \<lparr>rl_frames = delta_ok, rl_drops = delta_drop, rl_percent = bps div 100,
            rl_hundredths = bps mod 100, rl_channel_full = full\<rparr>)"

fun reporter_loop ::
  "bool \<Rightarrow> (bool \<times> metrics) list \<Rightarrow> u64 \<Rightarrow> u64 \<Rightarrow> report_line list \<times> reporter_end" where
  "reporter_loop checks [] prev_ok prev_drop = ([], Running)"
| "reporter_loop checks ((shutdown, m) # obs) prev_ok prev_drop =
     (if shutdown then ([], Exited)
      else case totals checks m of
          None \<Rightarrow> ([], Panicked)
        | Some (ok, dr, full) \<Rightarrow>
            (case reporter_loop checks obs ok dr of
               (ls, e) \<Rightarrow> (report prev_ok prev_drop (ok, dr, full) # ls, e)))"

definition reporter :: "bool \<Rightarrow> (bool \<times> metrics) list \<Rightarrow> report_line list \<times> reporter_end" where
  "reporter checks obs = reporter_loop checks obs 0 0"

text \<open>Counters that only grow, without any of the sums reaching \<open>2 ^ 64\<close>.\<close>

definition ok_sum :: "metrics \<Rightarrow> nat" where
  "ok_sum m = sum_list (map unat (frames_ok m))"

definition drop_sum :: "metrics \<Rightarrow> nat" where
  "drop_sum m = sum_list (map unat (frames_dropped m))"

fun growing :: "nat \<Rightarrow> nat \<Rightarrow> metrics list \<Rightarrow> bool" where
  "growing a b [] \<longleftrightarrow> True"
| "growing a b (m # ms) \<longleftrightarrow> a \<le> ok_sum m \<and> b \<le> drop_sum m \<and> ok_sum m < 2 ^ 64 \<and>
     drop_sum m < 2 ^ 64 \<and> sum_list (map unat (channel_full m)) < 2 ^ 64 \<and>
     growing (ok_sum m) (drop_sum m) ms"

lemma totals_no_overflow:
  assumes "ok_sum m < 2 ^ 64" "drop_sum m < 2 ^ 64" "sum_list (map unat (channel_full m)) < 2 ^ 64"
  shows "\<exists>ok dr full. totals checks m = Some (ok, dr, full) \<and> unat ok = ok_sum m \<and>
    unat dr = drop_sum m"
proof -
  have "totals checks m = totals False m"
    using assms totals_checked [of m] by (cases checks) (auto simp: ok_sum_def drop_sum_def)
  moreover have "unat (sum_list (frames_ok m)) = ok_sum m" "unat (sum_list (frames_dropped m)) = drop_sum m"
    using assms sum_u64_checked [of 0 "frames_ok m"] sum_u64_checked [of 0 "frames_dropped m"]
    by (auto simp: ok_sum_def drop_sum_def)
  ultimately show ?thesis
    using totals_unchecked [of m] by simp
qed

lemma reporter_loop_growing:
  "growing (unat po) (unat pd) ms \<Longrightarrow>
   \<exists>ls. reporter_loop checks (map (Pair False) ms @ [(True, m')]) po pd = (ls, Exited) \<and>
     length ls = length ms \<and>
     unat po + (\<Sum>l\<leftarrow>ls. unat (rl_frames l)) = last (unat po # map ok_sum ms) \<and>
     unat pd + (\<Sum>l\<leftarrow>ls. unat (rl_drops l)) = last (unat pd # map drop_sum ms)"
proof (induction ms arbitrary: po pd)
  case Nil
  then show ?case by simp
next
  case (Cons m ms)
  then obtain ok dr full where t: "totals checks m = Some (ok, dr, full)"
    and u: "unat ok = ok_sum m" "unat dr = drop_sum m"
    using totals_no_overflow [of m checks] by auto
  from Cons.prems u have "growing (unat ok) (unat dr) ms" by simp
  from Cons.IH [OF this] obtain ls where
    ls: "reporter_loop checks (map (Pair False) ms @ [(True, m')]) ok dr = (ls, Exited)"
      "length ls = length ms"
      "unat ok + (\<Sum>l\<leftarrow>ls. unat (rl_frames l)) = last (unat ok # map ok_sum ms)"
      "unat dr + (\<Sum>l\<leftarrow>ls. unat (rl_drops l)) = last (unat dr # map drop_sum ms)"
    by blast
  have le: "unat po \<le> unat ok" "unat pd \<le> unat dr"
    using Cons.prems u by simp_all
  show ?case
    using t ls u le by (simp add: report_def Let_def unat_saturating_sub)
qed

text \<open>
  C30. The reporter prints one line per tick and stops at the first shutdown value. As
  long as the counters only grow and their sums stay below \<open>2 ^ 64\<close>, it never panics in
  either build profile and its per-second figures add up: all frame deltas together are the
  frames counted at the last tick, and likewise for the drops.
\<close>

theorem reporter_deltas_add_up:
  assumes "growing 0 0 ms"
  shows "\<exists>ls. reporter checks (map (Pair False) ms @ [(True, m')]) = (ls, Exited) \<and>
    length ls = length ms \<and>
    (\<Sum>l\<leftarrow>ls. unat (rl_frames l)) = last (0 # map ok_sum ms) \<and>
    (\<Sum>l\<leftarrow>ls. unat (rl_drops l)) = last (0 # map drop_sum ms)"
  using reporter_loop_growing [of 0 0 ms checks m'] assms by (simp add: reporter_def)

theorem reporter_deltas_add_up_witness:
  "\<exists>ls. reporter True [(False, record_ok metrics_new 3), (True, metrics_new)] = (ls, Exited) \<and>
     (\<Sum>l\<leftarrow>ls. unat (rl_frames l)) = 1"
proof -
  have sums: "ok_sum (record_ok metrics_new 3) = 1" "drop_sum (record_ok metrics_new 3) = 0"
    "sum_list (map unat (channel_full (record_ok metrics_new 3))) < 2 ^ 64"
    by (simp_all add: ok_sum_def drop_sum_def record_ok_def metrics_new_def fetch_add_1_def
        NCPU_def map_update sum_list_update sum_list_replicate)
  then have "growing 0 0 [record_ok metrics_new 3]" by simp
  from reporter_deltas_add_up [OF this, of True metrics_new] sums show ?thesis by auto
qed

end
