(* ===== verification/SG_Dispatch.thy ===== *)
theory SG_Dispatch
  imports SG_Metrics
begin

text \<open>
  \<^verbatim>\<open>sg-capture/src/dispatch.rs\<close>: the bounded channel between a vacuum worker and its
  consumer. The crossbeam channel is a parameter: \<open>try_send\<close> on a state of the world, with
  the result that the code matches on. The locale \<open>frame_channel\<close> is its contract: an
  accepted frame is appended to the frames sent, a refused frame changes nothing.
\<close>

section \<open>The code\<close>

text \<open>\<^verbatim>\<open>BATCH_SIZE\<close> of \<^verbatim>\<open>vacuum.rs\<close>, which this module imports.\<close>

definition BATCH_SIZE :: nat where
  "BATCH_SIZE = 256"

definition DISPATCH_CAPACITY :: nat where
  "DISPATCH_CAPACITY = BATCH_SIZE * 4"

text \<open>\<^verbatim>\<open>dispatch_channel\<close>, over the channel library's \<^verbatim>\<open>bounded\<close>.\<close>

definition dispatch_channel :: "(nat \<Rightarrow> 'tx \<times> 'rx) \<Rightarrow> 'tx \<times> 'rx" where
  "dispatch_channel bounded = bounded DISPATCH_CAPACITY"

datatype try_send_error = Full | Disconnected

definition try_dispatch ::
  "('w \<Rightarrow> signal_frame \<Rightarrow> 'w \<times> (try_send_error + unit)) \<Rightarrow> 'w \<Rightarrow> signal_frame \<Rightarrow> nat \<Rightarrow>
   metrics \<Rightarrow> 'w \<times> metrics \<times> bool" where
  "try_dispatch send w frame cpu m =
     (case send w frame of
        (w', Inr _) \<Rightarrow> (w', m, True)
      | (w', Inl Full) \<Rightarrow> (w', record_channel_full m cpu, False)
      | (w', Inl Disconnected) \<Rightarrow> (w', m, False))"

section \<open>The channel contract\<close>

locale frame_channel =
  fixes send :: "'w \<Rightarrow> signal_frame \<Rightarrow> 'w \<times> (try_send_error + unit)"
    and sent :: "'w \<Rightarrow> signal_frame list"
  assumes send_ok: "send w f = (w', Inr ()) \<Longrightarrow> sent w' = sent w @ [f]"
    and send_err: "send w f = (w', Inl e) \<Longrightarrow> sent w' = sent w"
begin

lemma try_dispatch_spec:
  assumes "try_dispatch send w f cpu m = (w', m', ok)"
  shows "sent w' = (if ok then sent w @ [f] else sent w) \<and>
    (m' = m \<or> \<not> ok \<and> m' = record_channel_full m cpu)"
proof -
  obtain w1 r where s: "send w f = (w1, r)"
    by (cases "send w f")
  show ?thesis
  proof (cases r)
    case (Inl e)
    with s have "sent w1 = sent w" using send_err by simp
    with s Inl assms show ?thesis
      by (cases e) (auto simp: try_dispatch_def)
  next
    case (Inr u)
    with s have "sent w1 = sent w @ [f]" using send_ok by simp
    with s Inr assms show ?thesis
      by (auto simp: try_dispatch_def)
  qed
qed

end

text \<open>
  A connected channel of bounded capacity that no consumer empties meanwhile: it refuses
  exactly when no room is left, and an accepted frame takes one place.
\<close>

locale bounded_fifo = frame_channel send sent
  for send :: "'w \<Rightarrow> signal_frame \<Rightarrow> 'w \<times> (try_send_error + unit)" and sent +
  fixes connected :: "'w \<Rightarrow> bool" and room :: "'w \<Rightarrow> nat"
  assumes send_room: "connected w \<Longrightarrow> send w f = (w', r) \<Longrightarrow> connected w' \<and>
    (if room w = 0 then r = Inl Full \<and> room w' = 0 else r = Inr () \<and> Suc (room w') = room w)"
begin

lemma dispatch_room:
  assumes "connected w" "try_dispatch send w f cpu m = (w', m', ok)"
  shows "connected w' \<and> (ok \<longleftrightarrow> room w \<noteq> 0) \<and> room w' = room w - 1 \<and>
    m' = (if ok then m else record_channel_full m cpu) \<and> sent w' = (if ok then sent w @ [f] else sent w)"
proof -
  obtain w1 r where s: "send w f = (w1, r)"
    by (cases "send w f")
  note t = try_dispatch_spec [OF assms(2)] send_room [OF assms(1) s]
  show ?thesis
  proof (cases "room w = 0")
    case True
    with t s assms(2) show ?thesis by (auto simp: try_dispatch_def)
  next
    case False
    with t s assms(2) show ?thesis by (auto simp: try_dispatch_def)
  qed
qed

end

section \<open>A reference channel\<close>

text \<open>
  A bounded first-in first-out queue that refuses when \<open>capacity\<close> frames wait or when the
  receiver is gone, with the history of accepted frames.
\<close>

record chan =
  ch_queue :: "signal_frame list"
  ch_capacity :: nat
  ch_open :: bool
  ch_sent :: "signal_frame list"

definition chan_new :: "nat \<Rightarrow> chan" where
  "chan_new n = \<lparr>ch_queue = [], ch_capacity = n, ch_open = True, ch_sent = []\<rparr>"

definition chan_try_send :: "chan \<Rightarrow> signal_frame \<Rightarrow> chan \<times> (try_send_error + unit)" where
  "chan_try_send c f =
     (if \<not> ch_open c then (c, Inl Disconnected)
      else if ch_capacity c \<le> length (ch_queue c) then (c, Inl Full)
      else (c\<lparr>ch_queue := ch_queue c @ [f], ch_sent := ch_sent c @ [f]\<rparr>, Inr ()))"

lemma ref_channel: "frame_channel chan_try_send ch_sent"
  by unfold_locales (auto simp: chan_try_send_def split: if_splits)

interpretation rc: frame_channel chan_try_send ch_sent
  by (rule ref_channel)

definition ch_room :: "chan \<Rightarrow> nat" where
  "ch_room c = ch_capacity c - length (ch_queue c)"

lemma ref_bounded: "bounded_fifo chan_try_send ch_sent ch_open ch_room"
  by unfold_locales (auto simp: chan_try_send_def ch_room_def split: if_splits)

interpretation rb: bounded_fifo chan_try_send ch_sent ch_open ch_room
  by (rule ref_bounded)

section \<open>Properties\<close>

text \<open>
  One dispatch, under the channel contract, on each of the three results of
  \<^verbatim>\<open>try_send\<close>. It returns true exactly when the channel accepted the frame, and then the
  frame is the last one sent and no counter moves; a full channel bumps only the
  backpressure counter of the worker's CPU; a disconnected channel bumps nothing. A refused
  frame is not sent.
\<close>

theorem try_dispatch_correct:
  assumes "frame_channel send sent" and "send w f = (w', r)"
  shows "case r of
      Inr _ \<Rightarrow> try_dispatch send w f cpu m = (w', m, True) \<and> sent w' = sent w @ [f]
    | Inl Full \<Rightarrow> try_dispatch send w f cpu m = (w', record_channel_full m cpu, False) \<and> sent w' = sent w
    | Inl Disconnected \<Rightarrow> try_dispatch send w f cpu m = (w', m, False) \<and> sent w' = sent w"
proof (cases r)
  case (Inl e)
  then have "sent w' = sent w"
    using frame_channel.send_err [OF assms(1)] assms(2) by simp
  with Inl assms(2) show ?thesis
    by (cases e) (simp_all add: try_dispatch_def)
next
  case (Inr u)
  then have "sent w' = sent w @ [f]"
    using frame_channel.send_ok [OF assms(1)] assms(2) by simp
  with Inr assms(2) show ?thesis
    by (simp add: try_dispatch_def)
qed

theorem try_dispatch_correct_witness:
  "try_dispatch chan_try_send (chan_new 0) zeroed 2 metrics_new =
     (chan_new 0, record_channel_full metrics_new 2, False)"
proof -
  have "chan_try_send (chan_new 0) zeroed = (chan_new 0, Inl Full)"
    by (simp add: chan_try_send_def chan_new_def)
  from try_dispatch_correct [OF ref_channel this] show ?thesis by simp
qed

end
