(* ===== verification/SG_Vacuum.thy ===== *)
theory SG_Vacuum
  imports SG_Dispatch
begin

text \<open>
  \<^verbatim>\<open>sg-capture/src/vacuum.rs\<close>: the polling loop of one vacuum worker. The crates it calls
  (aya's ring reader, crossbeam, arrayvec, core_affinity, the shared shutdown flag) are
  operations over a state of the world and over a batch buffer, taken as arguments; their
  documented behaviour is the locale \<open>vacuum_env\<close>. A loop that is never told to stop has the
  value \<open>None\<close>.
\<close>

section \<open>Interfaces\<close>

record 'w vac_api =
  set_affinity :: "'w \<Rightarrow> nat \<Rightarrow> 'w \<times> bool"
  load_shutdown :: "'w \<Rightarrow> 'w \<times> bool"
  ring_next :: "'w \<Rightarrow> 'w \<times> u8 list option"
  try_send :: "'w \<Rightarrow> signal_frame \<Rightarrow> 'w \<times> (try_send_error + unit)"
  yield_now :: "'w \<Rightarrow> 'w"

text \<open>\<^verbatim>\<open>ArrayVec<SignalFrame, BATCH_SIZE>\<close>.\<close>

record 'b batch_api =
  batch_new :: 'b
  batch_clear :: "'b \<Rightarrow> 'b"
  batch_try_push :: "'b \<Rightarrow> signal_frame \<Rightarrow> 'b \<times> bool"
  batch_drain :: "'b \<Rightarrow> signal_frame list \<times> 'b"

section \<open>The code\<close>

definition TIMESTAMP_SLACK_NS :: u64 where
  "TIMESTAMP_SLACK_NS = 0"

record ('w, 'b) vac_state =
  vs_world :: 'w
  vs_metrics :: metrics
  vs_batch :: 'b
  vs_last :: u64

text \<open>One item of the ring: the size check, the cast, the timestamp check, the push.\<close>

definition take_record ::
  "'b batch_api \<Rightarrow> nat \<Rightarrow> u8 list \<Rightarrow> ('w, 'b) vac_state \<Rightarrow> ('w, 'b) vac_state" where
  "take_record bapi cpu raw st =
     (if length raw \<noteq> SIGNAL_FRAME_SIZE
      then st\<lparr>vs_metrics := record_drop (vs_metrics st) cpu\<rparr>
      else
        let frame = frame_of_bytes raw; ts = timestamp_ns frame in
        if ts < saturating_sub (vs_last st) TIMESTAMP_SLACK_NS
        then st\<lparr>vs_metrics := record_drop (vs_metrics st) cpu\<rparr>
        else st\<lparr>vs_last := ts, vs_batch := fst (batch_try_push bapi (vs_batch st) frame)\<rparr>)"

fun drain_loop ::
  "'w vac_api \<Rightarrow> 'b batch_api \<Rightarrow> nat \<Rightarrow> nat \<Rightarrow> ('w, 'b) vac_state \<Rightarrow> ('w, 'b) vac_state" where
  "drain_loop api bapi cpu 0 st = st"
| "drain_loop api bapi cpu (Suc n) st =
     (case ring_next api (vs_world st) of
        (w', None) \<Rightarrow> st\<lparr>vs_world := w'\<rparr>
      | (w', Some raw) \<Rightarrow>
          drain_loop api bapi cpu n (take_record bapi cpu raw (st\<lparr>vs_world := w'\<rparr>)))"

fun dispatch_loop ::
  "'w vac_api \<Rightarrow> nat \<Rightarrow> signal_frame list \<Rightarrow> 'w \<Rightarrow> metrics \<Rightarrow> 'w \<times> metrics" where
  "dispatch_loop api cpu [] w m = (w, m)"
| "dispatch_loop api cpu (f # fs) w m =
     (case try_dispatch (try_send api) w f cpu m of
        (w', m', ok) \<Rightarrow> dispatch_loop api cpu fs w' (if ok then record_ok m' cpu else m'))"

text \<open>The body of the poll loop after the shutdown check.\<close>

definition vac_body ::
  "'w vac_api \<Rightarrow> 'b batch_api \<Rightarrow> nat \<Rightarrow> ('w, 'b) vac_state \<Rightarrow> ('w, 'b) vac_state" where
  "vac_body api bapi cpu st =
     (let st = st\<lparr>vs_batch := batch_clear bapi (vs_batch st)\<rparr>;
          st = drain_loop api bapi cpu BATCH_SIZE st
      in case batch_drain bapi (vs_batch st) of
           (fs, b') \<Rightarrow>
             (case dispatch_loop api cpu fs (vs_world st) (vs_metrics st) of
                (w', m') \<Rightarrow>
                  st\<lparr>vs_world := yield_now api w', vs_metrics := m', vs_batch := b'\<rparr>))"

partial_function (option) poll_loop ::
  "'w vac_api \<Rightarrow> 'b batch_api \<Rightarrow> nat \<Rightarrow> ('w, 'b) vac_state \<Rightarrow> ('w, 'b) vac_state option" where
  "poll_loop api bapi cpu st =
     (case load_shutdown api (vs_world st) of
        (w', stop) \<Rightarrow>
          if stop then Some (st\<lparr>vs_world := w'\<rparr>)
          else poll_loop api bapi cpu (vac_body api bapi cpu (st\<lparr>vs_world := w'\<rparr>)))"

datatype worker_end = AffinityPanic | ShutDown

definition vacuum_entry ::
  "'w vac_api \<Rightarrow> 'b batch_api \<Rightarrow> nat \<Rightarrow> metrics \<Rightarrow> 'w \<Rightarrow> ('w \<times> metrics \<times> worker_end) option" where
  "vacuum_entry api bapi cpu m w =
     (case set_affinity api w cpu of
        (w', ok) \<Rightarrow>
          if \<not> ok then Some (w', m, AffinityPanic)
          else
            case poll_loop api bapi cpu
                \<lparr>vs_world = w', vs_metrics = m, vs_batch = batch_new bapi, vs_last = 0\<rparr> of
              None \<Rightarrow> None
            | Some st \<Rightarrow> Some (vs_world st, vs_metrics st, ShutDown))"

section \<open>What the checks accept\<close>

text \<open>
  The specification of the validation, as a filter of the record stream: a record is
  accepted when it has the size of a frame and its timestamp is not below the timestamp of
  the last accepted record.
\<close>

definition good :: "u64 \<Rightarrow> u8 list \<Rightarrow> bool" where
  "good prev r \<longleftrightarrow> length r = 64 \<and> prev \<le> timestamp_ns (frame_of_bytes r)"

fun accepted :: "u64 \<Rightarrow> u8 list list \<Rightarrow> signal_frame list" where
  "accepted prev [] = []"
| "accepted prev (r # rs) =
     (if good prev r then frame_of_bytes r # accepted (timestamp_ns (frame_of_bytes r)) rs
      else accepted prev rs)"

fun final_ts :: "u64 \<Rightarrow> u8 list list \<Rightarrow> u64" where
  "final_ts prev [] = prev"
| "final_ts prev (r # rs) =
     (if good prev r then final_ts (timestamp_ns (frame_of_bytes r)) rs else final_ts prev rs)"

lemma accepted_append:
  "accepted prev (rs @ ss) = accepted prev rs @ accepted (final_ts prev rs) ss"
  by (induction rs arbitrary: prev) auto

lemma final_ts_append: "final_ts prev (rs @ ss) = final_ts (final_ts prev rs) ss"
  by (induction rs arbitrary: prev) auto

lemma length_accepted: "length (accepted prev rs) \<le> length rs"
  by (induction rs arbitrary: prev) (auto intro: le_SucI)

lemma accepted_wf: "f \<in> set (accepted prev rs) \<Longrightarrow> frame_wf f"
  by (induction rs arbitrary: prev) (auto simp: good_def split: if_splits)

lemma accepted_from: "f \<in> set (accepted prev rs) \<Longrightarrow> \<exists>r \<in> set rs. length r = 64 \<and> f = frame_of_bytes r"
  by (induction rs arbitrary: prev) (auto simp: good_def split: if_splits)

lemma accepted_ge: "f \<in> set (accepted prev rs) \<Longrightarrow> prev \<le> timestamp_ns f"
  by (induction rs arbitrary: prev) (auto simp: good_def split: if_splits intro: order_trans)

lemma sorted_accepted: "sorted (map timestamp_ns (accepted prev rs))"
  by (induction rs arbitrary: prev) (auto dest: accepted_ge)

text \<open>A stream in timestamp order is accepted whole.\<close>

lemma accepted_all:
  "\<forall>r \<in> set rs. length r = 64 \<Longrightarrow> sorted (prev # map (timestamp_ns \<circ> frame_of_bytes) rs) \<Longrightarrow>
   accepted prev rs = map frame_of_bytes rs"
  by (induction rs arbitrary: prev) (auto simp: good_def)

section \<open>Counting\<close>

text \<open>\<open>counted m m' cpu a d f\<close>: \<open>a\<close> ok, \<open>d\<close> drop and \<open>f\<close> backpressure events of \<open>cpu\<close> lead from \<open>m\<close> to \<open>m'\<close>.\<close>

definition counted :: "metrics \<Rightarrow> metrics \<Rightarrow> nat \<Rightarrow> nat \<Rightarrow> nat \<Rightarrow> nat \<Rightarrow> bool" where
  "counted m m' cpu a d f \<longleftrightarrow> metrics_wf m' \<and>
     (\<forall>c < NCPU. ok_at m' c = ok_at m c + (if c = cpu then of_nat a else 0) \<and>
        drop_at m' c = drop_at m c + (if c = cpu then of_nat d else 0) \<and>
        full_at m' c = full_at m c + (if c = cpu then of_nat f else 0))"

lemma counted_refl: "metrics_wf m \<Longrightarrow> counted m m cpu 0 0 0"
  by (simp add: counted_def)

lemma counted_trans:
  "counted m m1 cpu a d f \<Longrightarrow> counted m1 m2 cpu a' d' f' \<Longrightarrow>
   counted m m2 cpu (a + a') (d + d') (f + f')"
  by (auto simp: counted_def)

lemma counted_ok: "metrics_wf m \<Longrightarrow> cpu < NCPU \<Longrightarrow> counted m (record_ok m cpu) cpu (Suc 0) 0 0"
  by (auto simp: counted_def mok.at_bump)

lemma counted_drop: "metrics_wf m \<Longrightarrow> cpu < NCPU \<Longrightarrow> counted m (record_drop m cpu) cpu 0 (Suc 0) 0"
  by (auto simp: counted_def mdrop.at_bump)

lemma counted_full: "metrics_wf m \<Longrightarrow> cpu < NCPU \<Longrightarrow> counted m (record_channel_full m cpu) cpu 0 0 (Suc 0)"
  by (auto simp: counted_def mfull.at_bump)

lemma counted_wf: "counted m m' cpu a d f \<Longrightarrow> metrics_wf m'"
  by (simp add: counted_def)

text \<open>The frames a list of channel results lets through.\<close>

fun delivered :: "signal_frame list \<Rightarrow> (try_send_error + unit) list \<Rightarrow> signal_frame list" where
  "delivered (f # fs) (r # rs) = (if isl r then delivered fs rs else f # delivered fs rs)"
| "delivered fs rs = []"

lemma delivered_append:
  "length fs = length rs \<Longrightarrow> delivered (fs @ gs) (rs @ ss) = delivered fs rs @ delivered gs ss"
  by (induction fs rs rule: list_induct2) auto

lemma length_delivered:
  "length fs = length rs \<Longrightarrow> length (delivered fs rs) = count_list rs (Inr ())"
proof (induction fs rs rule: list_induct2)
  case (Cons f fs r rs)
  then show ?case by (cases r) auto
qed simp

lemma count_outcomes:
  "count_list rs (Inr ()) + count_list rs (Inl Full) + count_list rs (Inl Disconnected) = length rs"
proof (induction rs)
  case (Cons r rs)
  then show ?case
    by (cases r) (auto split: try_send_error.splits intro: try_send_error.exhaust)
qed simp

section \<open>The contracts\<close>

text \<open>
  The world of a worker: \<open>taken\<close> is the history of records the worker has read from the
  ring, \<open>sent\<close> the history of frames its channel has accepted.
\<close>

locale vac_world = frame_channel "try_send api" sent
  for api :: "'w vac_api" and sent +
  fixes taken :: "'w \<Rightarrow> u8 list list"
  assumes next_some: "ring_next api w = (w', Some r) \<Longrightarrow> taken w' = taken w @ [r] \<and> sent w' = sent w"
    and next_none: "ring_next api w = (w', None) \<Longrightarrow> taken w' = taken w \<and> sent w' = sent w"
    and send_taken: "try_send api w f = (w', res) \<Longrightarrow> taken w' = taken w"
    and shutdown_frame: "load_shutdown api w = (w', b) \<Longrightarrow> taken w' = taken w \<and> sent w' = sent w"
    and yield_frame: "taken (yield_now api w) = taken w \<and> sent (yield_now api w) = sent w"
    and affinity_frame: "set_affinity api w c = (w', b) \<Longrightarrow> taken w' = taken w \<and> sent w' = sent w"

text \<open>A buffer of fixed capacity that refuses a push when it is full.\<close>

locale array_vec =
  fixes bapi :: "'b batch_api" and contents :: "'b \<Rightarrow> signal_frame list" and cap :: nat
  assumes contents_new: "contents (batch_new bapi) = []"
    and contents_clear: "contents (batch_clear bapi b) = []"
    and push: "batch_try_push bapi b f = (b', ok) \<Longrightarrow>
      (ok \<longleftrightarrow> length (contents b) < cap) \<and> contents b' = (if ok then contents b @ [f] else contents b)"
    and drain: "batch_drain bapi b = (fs, b') \<Longrightarrow> fs = contents b \<and> contents b' = []"
begin

lemma push_fits:
  "length (contents b) < cap \<Longrightarrow>
   snd (batch_try_push bapi b f) \<and> contents (fst (batch_try_push bapi b f)) = contents b @ [f]"
  using push [of b f] by (cases "batch_try_push bapi b f") auto

end

locale vacuum_env = vac_world api sent taken + array_vec bapi contents BATCH_SIZE
  for api :: "'w vac_api" and sent taken and bapi :: "'b batch_api" and contents

section \<open>The loop implements the filter\<close>

text \<open>
  \<open>worker_ran taken sent cpu st st'\<close>: between the two states the worker read some records, offered
  exactly the accepted ones to the channel in order, and counted every record once.
\<close>

definition worker_ran ::
  "('w \<Rightarrow> u8 list list) \<Rightarrow> ('w \<Rightarrow> signal_frame list) \<Rightarrow> nat \<Rightarrow>
   ('w, 'b) vac_state \<Rightarrow> ('w, 'b) vac_state \<Rightarrow> bool" where
  "worker_ran taken sent cpu st st' \<longleftrightarrow> (\<exists>rs outs.
     taken (vs_world st') = taken (vs_world st) @ rs \<and>
     length outs = length (accepted (vs_last st) rs) \<and>
     sent (vs_world st') = sent (vs_world st) @ delivered (accepted (vs_last st) rs) outs \<and>
     vs_last st' = final_ts (vs_last st) rs \<and>
     counted (vs_metrics st) (vs_metrics st') cpu (count_list outs (Inr ()))
       (length rs - length (accepted (vs_last st) rs)) (count_list outs (Inl Full)))"

lemma ran_refl: "metrics_wf (vs_metrics st) \<Longrightarrow> worker_ran taken sent cpu st st"
  unfolding worker_ran_def by (intro exI [of _ "[]"]) (simp add: counted_refl)

lemma ran_trans:
  assumes "worker_ran taken sent cpu st1 st2" and "worker_ran taken sent cpu st2 st3"
  shows "worker_ran taken sent cpu st1 st3"
proof -
  from assms(1) obtain rs1 o1 where 1: "taken (vs_world st2) = taken (vs_world st1) @ rs1"
    "length o1 = length (accepted (vs_last st1) rs1)"
    "sent (vs_world st2) = sent (vs_world st1) @ delivered (accepted (vs_last st1) rs1) o1"
    "vs_last st2 = final_ts (vs_last st1) rs1"
    "counted (vs_metrics st1) (vs_metrics st2) cpu (count_list o1 (Inr ()))
       (length rs1 - length (accepted (vs_last st1) rs1)) (count_list o1 (Inl Full))"
    by (auto simp: worker_ran_def)
  from assms(2) obtain rs2 o2 where 2: "taken (vs_world st3) = taken (vs_world st2) @ rs2"
    "length o2 = length (accepted (vs_last st2) rs2)"
    "sent (vs_world st3) = sent (vs_world st2) @ delivered (accepted (vs_last st2) rs2) o2"
    "vs_last st3 = final_ts (vs_last st2) rs2"
    "counted (vs_metrics st2) (vs_metrics st3) cpu (count_list o2 (Inr ()))
       (length rs2 - length (accepted (vs_last st2) rs2)) (count_list o2 (Inl Full))"
    by (auto simp: worker_ran_def)
  have "counted (vs_metrics st1) (vs_metrics st3) cpu (count_list (o1 @ o2) (Inr ()))
      (length (rs1 @ rs2) - length (accepted (vs_last st1) (rs1 @ rs2)))
      (count_list (o1 @ o2) (Inl Full))"
    using counted_trans [OF 1(5) 2(5)] length_accepted [of "vs_last st1" rs1]
      length_accepted [of "vs_last st2" rs2]
    by (simp add: 1(4) accepted_append add.commute)
  with 1 2 show ?thesis
    unfolding worker_ran_def
    by (intro exI [of _ "rs1 @ rs2"] exI [of _ "o1 @ o2"])
      (simp add: accepted_append final_ts_append delivered_append)
qed

lemma ran_wf: "worker_ran taken sent cpu st st' \<Longrightarrow> metrics_wf (vs_metrics st')"
  by (auto simp: worker_ran_def dest: counted_wf)

lemma good_iff:
  "good prev r \<longleftrightarrow> length r = SIGNAL_FRAME_SIZE \<and>
     \<not> timestamp_ns (frame_of_bytes r) < saturating_sub prev TIMESTAMP_SLACK_NS"
  by (auto simp: good_def TIMESTAMP_SLACK_NS_def not_less)

context vacuum_env
begin

lemma take_record_spec:
  fixes r :: "u8 list"
  assumes "length (contents (vs_batch st)) < BATCH_SIZE" "metrics_wf (vs_metrics st)" "cpu < NCPU"
  defines "st' \<equiv> take_record bapi cpu r st"
  shows "vs_world st' = vs_world st"
    and "contents (vs_batch st') = contents (vs_batch st) @ accepted (vs_last st) [r]"
    and "vs_last st' = final_ts (vs_last st) [r]"
    and "counted (vs_metrics st) (vs_metrics st') cpu 0 (1 - length (accepted (vs_last st) [r])) 0"
proof -
  have "st' = (if good (vs_last st) r
      then st\<lparr>vs_last := timestamp_ns (frame_of_bytes r),
        vs_batch := fst (batch_try_push bapi (vs_batch st) (frame_of_bytes r))\<rparr>
      else st\<lparr>vs_metrics := record_drop (vs_metrics st) cpu\<rparr>)"
    by (auto simp: st'_def take_record_def good_iff Let_def)
  then show "vs_world st' = vs_world st"
    "contents (vs_batch st') = contents (vs_batch st) @ accepted (vs_last st) [r]"
    "vs_last st' = final_ts (vs_last st) [r]"
    "counted (vs_metrics st) (vs_metrics st') cpu 0 (1 - length (accepted (vs_last st) [r])) 0"
    using push_fits [OF assms(1)] counted_refl [OF assms(2)] counted_drop [OF assms(2,3)]
    by simp_all
qed

lemma drain_spec:
  assumes "length (contents (vs_batch st)) + n \<le> BATCH_SIZE" "metrics_wf (vs_metrics st)" "cpu < NCPU"
  shows "\<exists>rs. length rs \<le> n \<and>
    taken (vs_world (drain_loop api bapi cpu n st)) = taken (vs_world st) @ rs \<and>
    sent (vs_world (drain_loop api bapi cpu n st)) = sent (vs_world st) \<and>
    contents (vs_batch (drain_loop api bapi cpu n st)) =
      contents (vs_batch st) @ accepted (vs_last st) rs \<and>
    vs_last (drain_loop api bapi cpu n st) = final_ts (vs_last st) rs \<and>
    counted (vs_metrics st) (vs_metrics (drain_loop api bapi cpu n st)) cpu 0
      (length rs - length (accepted (vs_last st) rs)) 0"
  using assms(1,2)
proof (induction n arbitrary: st)
  case 0
  then show ?case
    by (intro exI [of _ "[]"]) (simp add: counted_refl)
next
  case (Suc n)
  obtain w' item where nx: "ring_next api (vs_world st) = (w', item)"
    by (cases "ring_next api (vs_world st)")
  show ?case
  proof (cases item)
    case None
    with nx next_none [of "vs_world st" w'] Suc.prems(2) show ?thesis
      by (intro exI [of _ "[]"]) (simp add: counted_refl)
  next
    case (Some r)
    define st1 where "st1 = st\<lparr>vs_world := w'\<rparr>"
    define st2 where "st2 = take_record bapi cpu r st1"
    have w': "taken w' = taken (vs_world st) @ [r]" "sent w' = sent (vs_world st)"
      using next_some [of "vs_world st" w' r] nx Some by simp_all
    have st1: "length (contents (vs_batch st1)) < BATCH_SIZE" "metrics_wf (vs_metrics st1)"
      "vs_last st1 = vs_last st" "vs_world st1 = w'" "vs_batch st1 = vs_batch st"
      "vs_metrics st1 = vs_metrics st"
      using Suc.prems by (simp_all add: st1_def)
    note t = take_record_spec [OF st1(1,2) assms(3), of r, folded st2_def, unfolded st1]
    have len: "length (accepted (vs_last st) [r]) \<le> 1"
      using length_accepted [of "vs_last st" "[r]"] by simp
    have "length (contents (vs_batch st2)) + n \<le> BATCH_SIZE"
      using t(2) len Suc.prems(1) by simp
    from Suc.IH [OF this counted_wf [OF t(4)]] obtain rs where rs: "length rs \<le> n"
      "taken (vs_world (drain_loop api bapi cpu n st2)) = taken (vs_world st2) @ rs"
      "sent (vs_world (drain_loop api bapi cpu n st2)) = sent (vs_world st2)"
      "contents (vs_batch (drain_loop api bapi cpu n st2)) =
        contents (vs_batch st2) @ accepted (vs_last st2) rs"
      "vs_last (drain_loop api bapi cpu n st2) = final_ts (vs_last st2) rs"
      "counted (vs_metrics st2) (vs_metrics (drain_loop api bapi cpu n st2)) cpu 0
        (length rs - length (accepted (vs_last st2) rs)) 0"
      by blast
    have step: "drain_loop api bapi cpu (Suc n) st = drain_loop api bapi cpu n st2"
      using nx Some by (simp add: st1_def st2_def)
    have app: "accepted (vs_last st) (r # rs) = accepted (vs_last st) [r] @ accepted (vs_last st2) rs"
      "final_ts (vs_last st) (r # rs) = final_ts (vs_last st2) rs"
      using accepted_append [of "vs_last st" "[r]" rs] final_ts_append [of "vs_last st" "[r]" rs]
      by (simp_all only: t(3) append_Cons append_Nil)
    have "1 - length (accepted (vs_last st) [r]) + (length rs - length (accepted (vs_last st2) rs)) =
        length (r # rs) - length (accepted (vs_last st) (r # rs))"
      using len length_accepted [of "vs_last st2" rs] by (simp only: app) simp
    with counted_trans [OF t(4) rs(6)]
    have "counted (vs_metrics st) (vs_metrics (drain_loop api bapi cpu n st2)) cpu 0
        (length (r # rs) - length (accepted (vs_last st) (r # rs))) 0"
      by simp
    then show ?thesis
      unfolding step using rs t(1,2) w'
      by (intro exI [of _ "r # rs"]) (simp only: app append_assoc, simp)
  qed
qed

lemma try_dispatch_counted:
  assumes "try_dispatch (try_send api) w f cpu m = (w1, m1, ok)" "metrics_wf m" "cpu < NCPU"
  shows "\<exists>r. try_send api w f = (w1, r) \<and>
    taken w1 = taken w \<and> sent w1 = sent w @ delivered [f] [r] \<and> (ok \<longleftrightarrow> \<not> isl r) \<and>
    counted m (if ok then record_ok m1 cpu else m1) cpu (count_list [r] (Inr ())) 0
      (count_list [r] (Inl Full))"
proof -
  obtain r where s: "try_send api w f = (w1, r)"
    using assms(1)
    by (cases "try_send api w f")
      (auto simp: try_dispatch_def split: sum.splits try_send_error.splits)
  have tk: "taken w1 = taken w" using send_taken [OF s] .
  show ?thesis
  proof (cases r)
    case (Inr u)
    then have "sent w1 = sent w @ [f]" using send_ok s by simp
    with Inr s assms tk show ?thesis
      by (intro exI [of _ r]) (auto simp: try_dispatch_def counted_ok)
  next
    case (Inl e)
    then have "sent w1 = sent w" using send_err s by simp
    with Inl s assms tk show ?thesis
      by (intro exI [of _ r]) (cases e; auto simp: try_dispatch_def counted_full counted_refl)
  qed
qed

lemma dispatch_spec:
  assumes "dispatch_loop api cpu fs w m = (w', m')" "metrics_wf m" "cpu < NCPU"
  shows "\<exists>outs. length outs = length fs \<and> taken w' = taken w \<and>
    sent w' = sent w @ delivered fs outs \<and>
    counted m m' cpu (count_list outs (Inr ())) 0 (count_list outs (Inl Full))"
  using assms(1,2)
proof (induction fs arbitrary: w m)
  case Nil
  then show ?case by (simp add: counted_refl)
next
  case (Cons f fs)
  obtain w1 m1 ok where td: "try_dispatch (try_send api) w f cpu m = (w1, m1, ok)"
    by (cases "try_dispatch (try_send api) w f cpu m") auto
  let ?m2 = "if ok then record_ok m1 cpu else m1"
  from try_dispatch_counted [OF td Cons.prems(2) assms(3)] obtain r where
    r: "taken w1 = taken w" "sent w1 = sent w @ delivered [f] [r]"
      "counted m ?m2 cpu (count_list [r] (Inr ())) 0 (count_list [r] (Inl Full))"
    by blast
  have "dispatch_loop api cpu fs w1 ?m2 = (w', m')"
    using Cons.prems(1) td by simp
  from Cons.IH [OF this counted_wf [OF r(3)]] obtain outs where
    o: "length outs = length fs" "taken w' = taken w1" "sent w' = sent w1 @ delivered fs outs"
      "counted ?m2 m' cpu (count_list outs (Inr ())) 0 (count_list outs (Inl Full))"
    by blast
  have "delivered (f # fs) (r # outs) = delivered [f] [r] @ delivered fs outs"
    by simp
  moreover have "counted m m' cpu (count_list (r # outs) (Inr ())) 0 (count_list (r # outs) (Inl Full))"
    using counted_trans [OF r(3) o(4)] by (simp add: add.commute split: if_splits)
  ultimately show ?case
    using r o by (intro exI [of _ "r # outs"]) simp
qed

lemma body_worker_ran:
  assumes "metrics_wf (vs_metrics st)" "cpu < NCPU"
  shows "worker_ran taken sent cpu st (vac_body api bapi cpu st)"
proof -
  define st0 where "st0 = st\<lparr>vs_batch := batch_clear bapi (vs_batch st)\<rparr>"
  define st1 where "st1 = drain_loop api bapi cpu BATCH_SIZE st0"
  obtain fs b' where d: "batch_drain bapi (vs_batch st1) = (fs, b')"
    by (cases "batch_drain bapi (vs_batch st1)")
  obtain w' m' where x: "dispatch_loop api cpu fs (vs_world st1) (vs_metrics st1) = (w', m')"
    by (cases "dispatch_loop api cpu fs (vs_world st1) (vs_metrics st1)")
  have body: "vac_body api bapi cpu st =
      st1\<lparr>vs_world := yield_now api w', vs_metrics := m', vs_batch := b'\<rparr>"
    using d x by (simp add: vac_body_def st0_def st1_def Let_def)
  have st0: "length (contents (vs_batch st0)) + BATCH_SIZE \<le> BATCH_SIZE"
    "metrics_wf (vs_metrics st0)" "vs_world st0 = vs_world st" "vs_last st0 = vs_last st"
    "vs_metrics st0 = vs_metrics st" "contents (vs_batch st0) = []"
    using assms(1) by (simp_all add: st0_def contents_clear)
  from drain_spec [OF st0(1,2) assms(2), folded st1_def, unfolded st0] obtain rs where
    rs: "taken (vs_world st1) = taken (vs_world st) @ rs" "sent (vs_world st1) = sent (vs_world st)"
      "contents (vs_batch st1) = accepted (vs_last st) rs" "vs_last st1 = final_ts (vs_last st) rs"
      "counted (vs_metrics st) (vs_metrics st1) cpu 0
        (length rs - length (accepted (vs_last st) rs)) 0"
    by auto
  have fs: "fs = accepted (vs_last st) rs"
    using drain [OF d] rs(3) by simp
  from dispatch_spec [OF x counted_wf [OF rs(5)] assms(2)] obtain outs where
    o: "length outs = length fs" "taken w' = taken (vs_world st1)"
      "sent w' = sent (vs_world st1) @ delivered fs outs"
      "counted (vs_metrics st1) m' cpu (count_list outs (Inr ())) 0 (count_list outs (Inl Full))"
    by blast
  show ?thesis
    unfolding worker_ran_def body
    using rs o fs yield_frame [of w'] counted_trans [OF rs(5) o(4)]
    by (intro exI [of _ rs] exI [of _ outs]) simp
qed

text \<open>Partial correctness of the poll loop: whatever it returns is a \<open>worker_ran\<close> of its start.\<close>

lemma poll_loop_ran:
  assumes "poll_loop api bapi cpu st = Some st'" "metrics_wf (vs_metrics st)" "cpu < NCPU"
  shows "worker_ran taken sent cpu st st'"
proof -
  let ?P = "\<lambda>a b c st st'. a = api \<and> b = bapi \<and> c = cpu \<longrightarrow>
      metrics_wf (vs_metrics st) \<longrightarrow> worker_ran taken sent cpu st st'"
  have "?P api bapi cpu st st'"
  proof (rule poll_loop.raw_induct [where P = ?P, OF _ assms(1)])
    fix loop a b c st st'
    assume IH: "\<And>a b c st st'. loop a b c st = Some st' \<Longrightarrow> ?P a b c st st'"
      and eq: "(case load_shutdown a (vs_world st) of (w', stop) \<Rightarrow>
          if stop then Some (st\<lparr>vs_world := w'\<rparr>)
          else loop a b c (vac_body a b c (st\<lparr>vs_world := w'\<rparr>))) = Some st'"
    show "?P a b c st st'"
    proof (intro impI)
      assume args: "a = api \<and> b = bapi \<and> c = cpu" and wf: "metrics_wf (vs_metrics st)"
      obtain w' stop where sd: "load_shutdown api (vs_world st) = (w', stop)"
        by (cases "load_shutdown api (vs_world st)")
      have here: "worker_ran taken sent cpu st (st\<lparr>vs_world := w'\<rparr>)"
        using ran_refl [OF wf, of taken sent cpu] shutdown_frame [OF sd]
        by (simp add: worker_ran_def)
      show "worker_ran taken sent cpu st st'"
      proof (cases stop)
        case True
        with eq sd args here show ?thesis by simp
      next
        case False
        have body: "worker_ran taken sent cpu (st\<lparr>vs_world := w'\<rparr>)
            (vac_body api bapi cpu (st\<lparr>vs_world := w'\<rparr>))"
          using wf assms(3) by (intro body_worker_ran) simp_all
        have "loop api bapi cpu (vac_body api bapi cpu (st\<lparr>vs_world := w'\<rparr>)) = Some st'"
          using eq sd args False by simp
        from IH [OF this] ran_wf [OF body]
        have "worker_ran taken sent cpu (vac_body api bapi cpu (st\<lparr>vs_world := w'\<rparr>)) st'"
          by simp
        with here body show ?thesis
          by (blast intro: ran_trans)
      qed
    qed
  qed
  with assms(2) show ?thesis by simp
qed

lemma vacuum_entry_ran:
  assumes "vacuum_entry api bapi cpu m w = Some (w', m', ShutDown)" "metrics_wf m" "cpu < NCPU"
  shows "\<exists>rs outs. taken w' = taken w @ rs \<and> length outs = length (accepted 0 rs) \<and>
    sent w' = sent w @ delivered (accepted 0 rs) outs \<and>
    counted m m' cpu (count_list outs (Inr ())) (length rs - length (accepted 0 rs))
      (count_list outs (Inl Full))"
proof -
  obtain w1 ok where a: "set_affinity api w cpu = (w1, ok)"
    by (cases "set_affinity api w cpu")
  obtain st where st: "poll_loop api bapi cpu
      \<lparr>vs_world = w1, vs_metrics = m, vs_batch = batch_new bapi, vs_last = 0\<rparr> = Some st"
    and r: "vs_world st = w'" "vs_metrics st = m'"
    using assms(1) a by (auto simp: vacuum_entry_def split: if_splits option.splits)
  have "worker_ran taken sent cpu \<lparr>vs_world = w1, vs_metrics = m, vs_batch = batch_new bapi, vs_last = 0\<rparr> st"
    using poll_loop_ran [OF st] assms(2,3) by simp
  then show ?thesis
    using affinity_frame [OF a] r by (simp add: worker_ran_def) blast
qed

end

end
