(* ===== verification/SG_VacuumRun.thy ===== *)
theory SG_VacuumRun
  imports SG_Vacuum "HOL-Library.Sublist"
begin

text \<open>
  Runs of one vacuum worker (\<^verbatim>\<open>sg-capture/src/vacuum.rs\<close>): a reference world with a ring,
  a bounded channel and a shutdown flag that meets the contract \<open>vacuum_env\<close>, and the
  properties of the worker: what a batch holds, what is sent and counted, and when the loop
  returns.
\<close>

section \<open>A reference world\<close>

text \<open>
  The ring is the list of unread records, \<open>rw_polls\<close> the number of times the shutdown flag
  still reads false, and yielding lets the consumer empty the channel.
\<close>

record rworld =
  rw_ring :: "u8 list list"
  rw_taken :: "u8 list list"
  rw_chan :: chan
  rw_polls :: nat
  rw_cores :: nat

definition rw_sent :: "rworld \<Rightarrow> signal_frame list" where
  "rw_sent w = ch_sent (rw_chan w)"

definition rw_api :: "rworld vac_api" where
  "rw_api = \<lparr>
     set_affinity = (\<lambda>w c. (w, c < rw_cores w)),
     load_shutdown = (\<lambda>w. (w\<lparr>rw_polls := rw_polls w - 1\<rparr>, rw_polls w = 0)),
     ring_next = (\<lambda>w. case rw_ring w of
        [] \<Rightarrow> (w, None)
      | r # rs \<Rightarrow> (w\<lparr>rw_ring := rs, rw_taken := rw_taken w @ [r]\<rparr>, Some r)),
     try_send = (\<lambda>w f. case chan_try_send (rw_chan w) f of (c, res) \<Rightarrow> (w\<lparr>rw_chan := c\<rparr>, res)),
     yield_now = (\<lambda>w. w\<lparr>rw_chan := (rw_chan w)\<lparr>ch_queue := []\<rparr>\<rparr>)\<rparr>"

definition vec_api :: "signal_frame list batch_api" where
  "vec_api = \<lparr>
     batch_new = [],
     batch_clear = (\<lambda>_. []),
     batch_try_push = (\<lambda>b f. if length b < BATCH_SIZE then (b @ [f], True) else (b, False)),
     batch_drain = (\<lambda>b. (b, []))\<rparr>"

definition rworld_of :: "u8 list list \<Rightarrow> nat \<Rightarrow> rworld" where
  "rworld_of rs n = \<lparr>rw_ring = rs, rw_taken = [], rw_chan = chan_new DISPATCH_CAPACITY,
     rw_polls = n, rw_cores = NCPU\<rparr>"

lemma rw_api_sel [simp]:
  "set_affinity rw_api w c = (w, c < rw_cores w)"
  "load_shutdown rw_api w = (w\<lparr>rw_polls := rw_polls w - 1\<rparr>, rw_polls w = 0)"
  "ring_next rw_api w = (case rw_ring w of
      [] \<Rightarrow> (w, None)
    | r # rs \<Rightarrow> (w\<lparr>rw_ring := rs, rw_taken := rw_taken w @ [r]\<rparr>, Some r))"
  "try_send rw_api w f = (case chan_try_send (rw_chan w) f of (c, res) \<Rightarrow> (w\<lparr>rw_chan := c\<rparr>, res))"
  "yield_now rw_api w = w\<lparr>rw_chan := (rw_chan w)\<lparr>ch_queue := []\<rparr>\<rparr>"
  by (simp_all add: rw_api_def)

lemma vec_api_sel [simp]:
  "batch_new vec_api = []" "batch_clear vec_api b = []" "batch_drain vec_api b = (b, [])"
  "batch_try_push vec_api b f = (if length b < BATCH_SIZE then (b @ [f], True) else (b, False))"
  by (simp_all add: vec_api_def)

lemma ref_world: "vac_world rw_api rw_sent rw_taken"
  by unfold_locales
    (auto simp: rw_sent_def chan_try_send_def split: list.splits prod.splits if_splits)

lemma ref_vec: "array_vec vec_api id BATCH_SIZE"
  by unfold_locales (auto split: if_splits)

interpretation rw: vac_world rw_api rw_sent rw_taken
  by (rule ref_world)

interpretation rv: array_vec vec_api id BATCH_SIZE
  by (rule ref_vec)

interpretation re: vacuum_env rw_api rw_sent rw_taken vec_api id ..

lemma ref_env: "vacuum_env rw_api rw_sent rw_taken vec_api id" ..

section \<open>Unfolding the loop\<close>

lemma poll_stop:
  "load_shutdown api (vs_world st) = (w', True) \<Longrightarrow>
   poll_loop api bapi cpu st = Some (st\<lparr>vs_world := w'\<rparr>)"
  by (subst poll_loop.simps) simp

lemma poll_go:
  "load_shutdown api (vs_world st) = (w', False) \<Longrightarrow>
   poll_loop api bapi cpu st = poll_loop api bapi cpu (vac_body api bapi cpu (st\<lparr>vs_world := w'\<rparr>))"
  by (subst poll_loop.simps) simp

section \<open>A concrete run\<close>

definition stamped :: "u64 \<Rightarrow> signal_frame" where
  "stamped t = zeroed\<lparr>timestamp_ns := t\<rparr>"

definition stamped_rec :: "u64 \<Rightarrow> u8 list" where
  "stamped_rec t = frame_bytes (stamped t)"

lemma frame_wf_stamped [simp]: "frame_wf (stamped t)"
  by (simp add: frame_wf_def stamped_def zeroed_def)

lemma stamped_rec [simp]:
  "length (stamped_rec t) = 64" "frame_of_bytes (stamped_rec t) = stamped t"
  "timestamp_ns (stamped t) = t"
  by (simp_all add: stamped_rec_def fc.dec_enc) (simp add: stamped_def)

lemma stamped_eq [simp]: "stamped s = stamped t \<longleftrightarrow> s = t"
  by (metis stamped_rec(3))

text \<open>A good record, one with an equal timestamp, a regression and a record of the wrong size.\<close>

definition sample_ring :: "u8 list list" where
  "sample_ring = [stamped_rec 5, stamped_rec 5, stamped_rec 3, [1, 2, 3]]"

definition after_sample :: rworld where
  "after_sample = \<lparr>rw_ring = [], rw_taken = sample_ring,
     rw_chan = (chan_new DISPATCH_CAPACITY)\<lparr>ch_sent := [stamped 5, stamped 5]\<rparr>,
     rw_polls = 0, rw_cores = NCPU\<rparr>"

definition metrics_sample :: metrics where
  "metrics_sample =
     record_ok (record_ok (record_drop (record_drop metrics_new 2) 2) 2) 2"

lemma accepted_sample: "accepted 0 sample_ring = [stamped 5, stamped 5]"
  by (simp add: sample_ring_def good_def)

text \<open>One record of the ring, read and validated.\<close>

lemma drain_one:
  "drain_loop rw_api vec_api cpu (Suc n) \<lparr>vs_world = w, vs_metrics = m, vs_batch = b, vs_last = l\<rparr> =
     (case rw_ring w of
        [] \<Rightarrow> \<lparr>vs_world = w, vs_metrics = m, vs_batch = b, vs_last = l\<rparr>
      | r # rs \<Rightarrow> drain_loop rw_api vec_api cpu n
          (take_record vec_api cpu r
            \<lparr>vs_world = w\<lparr>rw_ring := rs, rw_taken := rw_taken w @ [r]\<rparr>, vs_metrics = m,
             vs_batch = b, vs_last = l\<rparr>))"
  by (simp split: list.split)

lemma take_one:
  "take_record vec_api cpu r \<lparr>vs_world = w, vs_metrics = m, vs_batch = b, vs_last = l\<rparr> =
     (if good l r
      then \<lparr>vs_world = w, vs_metrics = m,
            vs_batch = (if length b < BATCH_SIZE then b @ [frame_of_bytes r] else b),
            vs_last = timestamp_ns (frame_of_bytes r)\<rparr>
      else \<lparr>vs_world = w, vs_metrics = record_drop m cpu, vs_batch = b, vs_last = l\<rparr>)"
  by (auto simp: take_record_def good_iff Let_def)

lemma sample_drain:
  "drain_loop rw_api vec_api 2 BATCH_SIZE
     \<lparr>vs_world = rworld_of sample_ring 0, vs_metrics = metrics_new, vs_batch = [], vs_last = 0\<rparr> =
   \<lparr>vs_world = (rworld_of [] 0)\<lparr>rw_taken := sample_ring\<rparr>,
    vs_metrics = record_drop (record_drop metrics_new 2) 2,
    vs_batch = [stamped 5, stamped 5], vs_last = 5\<rparr>"
proof -
  have n: "BATCH_SIZE = Suc (Suc (Suc (Suc (Suc 251))))"
    by (simp add: BATCH_SIZE_def)
  have "drain_loop rw_api vec_api 2 (Suc (Suc (Suc (Suc (Suc n)))))
     \<lparr>vs_world = rworld_of sample_ring 0, vs_metrics = metrics_new, vs_batch = [], vs_last = 0\<rparr> =
   \<lparr>vs_world = (rworld_of [] 0)\<lparr>rw_taken := sample_ring\<rparr>,
    vs_metrics = record_drop (record_drop metrics_new 2) 2,
    vs_batch = [stamped 5, stamped 5], vs_last = 5\<rparr>" for n
    by (simp add: drain_one take_one rworld_of_def sample_ring_def good_def BATCH_SIZE_def
        del: drain_loop.simps)
  then show ?thesis by (simp only: n)
qed

lemma try_dispatch_room:
  assumes "length (ch_queue (rw_chan w)) < ch_capacity (rw_chan w)" "ch_open (rw_chan w)"
  shows "try_dispatch (try_send rw_api) w f cpu m =
    (w\<lparr>rw_chan := (rw_chan w)\<lparr>ch_queue := ch_queue (rw_chan w) @ [f],
        ch_sent := ch_sent (rw_chan w) @ [f]\<rparr>\<rparr>, m, True)"
  using assms by (simp add: try_dispatch_def chan_try_send_def)

lemma sample_dispatch:
  "dispatch_loop rw_api 2 [stamped 5, stamped 5] ((rworld_of [] 0)\<lparr>rw_taken := sample_ring\<rparr>) m =
     (after_sample\<lparr>rw_chan := (rw_chan after_sample)\<lparr>ch_queue := [stamped 5, stamped 5]\<rparr>\<rparr>,
      record_ok (record_ok m 2) 2)"
  by (simp add: try_dispatch_room rworld_of_def chan_new_def after_sample_def DISPATCH_CAPACITY_def
      BATCH_SIZE_def)

lemma sample_run:
  "vacuum_entry rw_api vec_api 2 metrics_new (rworld_of sample_ring 1) =
     Some (after_sample, metrics_sample, ShutDown)"
proof -
  have body: "vac_body rw_api vec_api 2 \<lparr>vs_world = rworld_of sample_ring 0,
        vs_metrics = metrics_new, vs_batch = [], vs_last = 0\<rparr> =
      \<lparr>vs_world = after_sample, vs_metrics = metrics_sample, vs_batch = [], vs_last = 5\<rparr>"
    by (simp add: vac_body_def Let_def sample_drain sample_dispatch metrics_sample_def
        del: dispatch_loop.simps drain_loop.simps)
      (simp add: after_sample_def chan_new_def)
  have start: "(rworld_of sample_ring (Suc 0))\<lparr>rw_polls := 0\<rparr> = rworld_of sample_ring 0"
    "rw_polls (rworld_of sample_ring (Suc 0)) = Suc 0" "2 < rw_cores (rworld_of sample_ring (Suc 0))"
    "after_sample\<lparr>rw_polls := 0\<rparr> = after_sample" "rw_polls after_sample = 0"
    by (simp_all add: rworld_of_def after_sample_def NCPU_def)
  have "poll_loop rw_api vec_api 2 \<lparr>vs_world = rworld_of sample_ring (Suc 0),
        vs_metrics = metrics_new, vs_batch = [], vs_last = 0\<rparr> =
      Some \<lparr>vs_world = after_sample, vs_metrics = metrics_sample, vs_batch = [], vs_last = 5\<rparr>"
    by (subst poll_go, simp add: start) (subst poll_stop, simp_all add: start body)
  with start(3) show ?thesis
    by (simp add: vacuum_entry_def)
qed

text \<open>A ring that the first drain empties and of which one frame is accepted.\<close>

lemma one_sent_run:
  assumes drain: "drain_loop rw_api vec_api cpu BATCH_SIZE \<lparr>vs_world = rworld_of rs 0,
        vs_metrics = metrics_new, vs_batch = [], vs_last = 0\<rparr> =
      \<lparr>vs_world = (rworld_of [] 0)\<lparr>rw_taken := rs\<rparr>, vs_metrics = m, vs_batch = [f], vs_last = l\<rparr>"
    and cpu: "cpu < NCPU"
  shows "\<exists>w' m'. vacuum_entry rw_api vec_api cpu metrics_new (rworld_of rs 1) = Some (w', m', ShutDown) \<and>
    rw_taken w' = rs \<and> rw_sent w' = [f]"
proof -
  let ?w = "(rworld_of [] 0)\<lparr>rw_taken := rs, rw_chan := (chan_new DISPATCH_CAPACITY)\<lparr>ch_sent := [f]\<rparr>\<rparr>"
  have disp: "dispatch_loop rw_api cpu [f] ((rworld_of [] 0)\<lparr>rw_taken := rs\<rparr>) m =
      (?w\<lparr>rw_chan := (rw_chan ?w)\<lparr>ch_queue := [f]\<rparr>\<rparr>, record_ok m cpu)"
    by (simp add: try_dispatch_room rworld_of_def chan_new_def DISPATCH_CAPACITY_def BATCH_SIZE_def)
  have body: "vac_body rw_api vec_api cpu \<lparr>vs_world = rworld_of rs 0, vs_metrics = metrics_new,
        vs_batch = [], vs_last = 0\<rparr> =
      \<lparr>vs_world = ?w, vs_metrics = record_ok m cpu, vs_batch = [], vs_last = l\<rparr>"
    by (simp add: vac_body_def Let_def drain disp del: dispatch_loop.simps drain_loop.simps)
      (simp add: rworld_of_def chan_new_def)
  have start: "(rworld_of rs (Suc 0))\<lparr>rw_polls := 0\<rparr> = rworld_of rs 0"
    "rw_polls (rworld_of rs (Suc 0)) = Suc 0" "cpu < rw_cores (rworld_of rs (Suc 0))"
    "?w\<lparr>rw_polls := 0\<rparr> = ?w" "rw_polls ?w = 0"
    using cpu by (simp_all add: rworld_of_def)
  have "poll_loop rw_api vec_api cpu \<lparr>vs_world = rworld_of rs (Suc 0),
        vs_metrics = metrics_new, vs_batch = [], vs_last = 0\<rparr> =
      Some \<lparr>vs_world = ?w, vs_metrics = record_ok m cpu, vs_batch = [], vs_last = l\<rparr>"
    by (subst poll_go, simp add: start) (subst poll_stop, simp_all add: start body)
  with start(3) show ?thesis
    by (simp add: vacuum_entry_def rw_sent_def)
qed

lemma single_run:
  assumes "good 0 r" "cpu < NCPU"
  shows "\<exists>w' m'. vacuum_entry rw_api vec_api cpu metrics_new (rworld_of [r] 1) = Some (w', m', ShutDown) \<and>
    rw_taken w' = [r] \<and> rw_sent w' = [frame_of_bytes r]"
proof (rule one_sent_run [OF _ assms(2)])
  have n: "BATCH_SIZE = Suc (Suc 254)"
    by (simp add: BATCH_SIZE_def)
  have "drain_loop rw_api vec_api cpu (Suc (Suc n)) \<lparr>vs_world = rworld_of [r] 0,
        vs_metrics = metrics_new, vs_batch = [], vs_last = 0\<rparr> =
      \<lparr>vs_world = (rworld_of [] 0)\<lparr>rw_taken := [r]\<rparr>, vs_metrics = metrics_new,
       vs_batch = [frame_of_bytes r], vs_last = timestamp_ns (frame_of_bytes r)\<rparr>" for n
    using assms(1)
    by (simp add: drain_one take_one rworld_of_def BATCH_SIZE_def del: drain_loop.simps)
  then show "drain_loop rw_api vec_api cpu BATCH_SIZE \<lparr>vs_world = rworld_of [r] 0,
        vs_metrics = metrics_new, vs_batch = [], vs_last = 0\<rparr> =
      \<lparr>vs_world = (rworld_of [] 0)\<lparr>rw_taken := [r]\<rparr>, vs_metrics = metrics_new,
       vs_batch = [frame_of_bytes r], vs_last = timestamp_ns (frame_of_bytes r)\<rparr>" by (simp only: n)
qed

lemma regressed_run:
  assumes "good 0 r" "\<not> good (timestamp_ns (frame_of_bytes r)) s" "cpu < NCPU"
  shows "\<exists>w' m'. vacuum_entry rw_api vec_api cpu metrics_new (rworld_of [r, s] 1) = Some (w', m', ShutDown) \<and>
    rw_taken w' = [r, s] \<and> rw_sent w' = [frame_of_bytes r]"
proof (rule one_sent_run [OF _ assms(3)])
  have n: "BATCH_SIZE = Suc (Suc (Suc 253))"
    by (simp add: BATCH_SIZE_def)
  have "drain_loop rw_api vec_api cpu (Suc (Suc (Suc n))) \<lparr>vs_world = rworld_of [r, s] 0,
        vs_metrics = metrics_new, vs_batch = [], vs_last = 0\<rparr> =
      \<lparr>vs_world = (rworld_of [] 0)\<lparr>rw_taken := [r, s]\<rparr>, vs_metrics = record_drop metrics_new cpu,
       vs_batch = [frame_of_bytes r], vs_last = timestamp_ns (frame_of_bytes r)\<rparr>" for n
    using assms(1,2)
    by (simp add: drain_one take_one rworld_of_def BATCH_SIZE_def del: drain_loop.simps)
  then show "drain_loop rw_api vec_api cpu BATCH_SIZE \<lparr>vs_world = rworld_of [r, s] 0,
        vs_metrics = metrics_new, vs_batch = [], vs_last = 0\<rparr> =
      \<lparr>vs_world = (rworld_of [] 0)\<lparr>rw_taken := [r, s]\<rparr>, vs_metrics = record_drop metrics_new cpu,
       vs_batch = [frame_of_bytes r], vs_last = timestamp_ns (frame_of_bytes r)\<rparr>" by (simp only: n)
qed

section \<open>Termination\<close>

text \<open>One turn of the poll loop that does not see the flag.\<close>

definition vac_turn ::
  "'w vac_api \<Rightarrow> 'b batch_api \<Rightarrow> nat \<Rightarrow> ('w, 'b) vac_state \<Rightarrow> ('w, 'b) vac_state" where
  "vac_turn api bapi cpu st =
     vac_body api bapi cpu (st\<lparr>vs_world := fst (load_shutdown api (vs_world st))\<rparr>)"

definition sees_flag :: "'w vac_api \<Rightarrow> ('w, 'b) vac_state \<Rightarrow> bool" where
  "sees_flag api st = snd (load_shutdown api (vs_world st))"

lemma poll_loop_cases:
  "poll_loop api bapi cpu st =
     (if sees_flag api st then Some (st\<lparr>vs_world := fst (load_shutdown api (vs_world st))\<rparr>)
      else poll_loop api bapi cpu (vac_turn api bapi cpu st))"
  by (cases "load_shutdown api (vs_world st)"; cases "snd (load_shutdown api (vs_world st))")
    (simp_all add: sees_flag_def vac_turn_def poll_stop poll_go)

lemma poll_loop_after:
  "\<forall>i < n. \<not> sees_flag api ((vac_turn api bapi cpu ^^ i) st) \<Longrightarrow>
   poll_loop api bapi cpu st = poll_loop api bapi cpu ((vac_turn api bapi cpu ^^ n) st)"
proof (induction n)
  case (Suc n)
  then have "poll_loop api bapi cpu st = poll_loop api bapi cpu ((vac_turn api bapi cpu ^^ n) st)"
    by simp
  also have "\<dots> = poll_loop api bapi cpu (vac_turn api bapi cpu ((vac_turn api bapi cpu ^^ n) st))"
    using Suc.prems by (subst poll_loop_cases) simp
  finally show ?case by simp
qed simp

lemma poll_loop_sees:
  assumes "poll_loop api bapi cpu st = Some st'"
  shows "\<exists>n. sees_flag api ((vac_turn api bapi cpu ^^ n) st)"
proof -
  let ?P = "\<lambda>a b c st st'. \<exists>n. sees_flag a ((vac_turn a b c ^^ n) st)"
  show "?P api bapi cpu st st'"
  proof (rule poll_loop.raw_induct [where P = ?P, OF _ assms])
    fix loop a b c st st'
    assume IH: "\<And>a b c st st'. loop a b c st = Some st' \<Longrightarrow> ?P a b c st st'"
      and eq: "(case load_shutdown a (vs_world st) of (w', stop) \<Rightarrow>
          if stop then Some (st\<lparr>vs_world := w'\<rparr>)
          else loop a b c (vac_body a b c (st\<lparr>vs_world := w'\<rparr>))) = Some st'"
    show "?P a b c st st'"
    proof (cases "sees_flag a st")
      case True
      then show ?thesis by (intro exI [of _ 0]) simp
    next
      case False
      with eq have "loop a b c (vac_turn a b c st) = Some st'"
        by (simp add: sees_flag_def vac_turn_def split: prod.splits)
      then obtain n where "sees_flag a ((vac_turn a b c ^^ n) (vac_turn a b c st))"
        using IH by blast
      then show ?thesis
        by (intro exI [of _ "Suc n"]) (simp add: funpow_swap1)
    qed
  qed
qed

text \<open>
  C14. Termination of the worker loop, for every behaviour of the ring, the channel and the
  flag: it returns exactly when some turn observes the shutdown flag. It then has executed
  precisely the turns before the first such observation, and its result is the state they
  produce: no batch is started after the flag is seen and none is cut short.
\<close>

theorem poll_loop_returns:
  "poll_loop api bapi cpu st =
     (if \<exists>n. sees_flag api ((vac_turn api bapi cpu ^^ n) st)
      then let st' = (vac_turn api bapi cpu ^^ (LEAST n. sees_flag api ((vac_turn api bapi cpu ^^ n) st))) st
           in Some (st'\<lparr>vs_world := fst (load_shutdown api (vs_world st'))\<rparr>)
      else None)"
proof (cases "\<exists>n. sees_flag api ((vac_turn api bapi cpu ^^ n) st)")
  case True
  define n where "n = (LEAST n. sees_flag api ((vac_turn api bapi cpu ^^ n) st))"
  have "sees_flag api ((vac_turn api bapi cpu ^^ n) st)"
    unfolding n_def using True by (rule LeastI_ex)
  moreover have "\<forall>i < n. \<not> sees_flag api ((vac_turn api bapi cpu ^^ i) st)"
    using not_less_Least unfolding n_def by blast
  ultimately have "poll_loop api bapi cpu st =
      Some (((vac_turn api bapi cpu ^^ n) st)\<lparr>vs_world :=
        fst (load_shutdown api (vs_world ((vac_turn api bapi cpu ^^ n) st)))\<rparr>)"
    using poll_loop_after poll_loop_cases by metis
  with True show ?thesis
    unfolding n_def by (simp add: Let_def)
next
  case False
  then have "poll_loop api bapi cpu st = None"
    using poll_loop_sees not_None_eq by metis
  with False show ?thesis by (simp only: if_False)
qed

section \<open>Properties of the worker\<close>

text \<open>
  One drain of the ring, under the contract. It reads at most 256 records, and the batch
  holds exactly the accepted ones, in ring order: the result of \<^verbatim>\<open>try_push\<close>, which the code
  ignores, is never a refusal, so no validated frame is lost on the way into the batch. Each
  rejected record is counted as one drop of the worker's CPU; nothing is sent yet.
\<close>

theorem drain_fills_batch:
  assumes "vacuum_env api sent taken bapi contents"
    and "metrics_wf (vs_metrics st)" and "cpu < NCPU"
    and "st' = drain_loop api bapi cpu BATCH_SIZE (st\<lparr>vs_batch := batch_clear bapi (vs_batch st)\<rparr>)"
  shows "\<exists>rs. length rs \<le> 256 \<and> taken (vs_world st') = taken (vs_world st) @ rs \<and>
    contents (vs_batch st') = accepted (vs_last st) rs \<and>
    vs_last st' = final_ts (vs_last st) rs \<and> sent (vs_world st') = sent (vs_world st) \<and>
    drop_at (vs_metrics st') cpu =
      drop_at (vs_metrics st) cpu + of_nat (length rs - length (accepted (vs_last st) rs))"
proof -
  let ?st0 = "st\<lparr>vs_batch := batch_clear bapi (vs_batch st)\<rparr>"
  have "contents (vs_batch ?st0) = []"
    using array_vec.contents_clear [OF vacuum_env.axioms(2) [OF assms(1)]] by simp
  then have "length (contents (vs_batch ?st0)) + BATCH_SIZE \<le> BATCH_SIZE" "metrics_wf (vs_metrics ?st0)"
    using assms(2) by simp_all
  from vacuum_env.drain_spec [OF assms(1) this assms(3), folded assms(4)] obtain rs where
    "length rs \<le> BATCH_SIZE" "taken (vs_world st') = taken (vs_world st) @ rs"
    "sent (vs_world st') = sent (vs_world st)" "contents (vs_batch st') = accepted (vs_last st) rs"
    "vs_last st' = final_ts (vs_last st) rs"
    "counted (vs_metrics st) (vs_metrics st') cpu 0 (length rs - length (accepted (vs_last st) rs)) 0"
    using \<open>contents (vs_batch ?st0) = []\<close> by auto
  then show ?thesis
    using assms(3) by (intro exI [of _ rs]) (simp add: counted_def BATCH_SIZE_def)
qed

theorem drain_fills_batch_witness:
  "\<exists>rs. [stamped 5, stamped 5] = accepted 0 rs \<and> length rs \<le> 256 \<and> rs = sample_ring"
proof -
  let ?st = "\<lparr>vs_world = rworld_of sample_ring 0, vs_metrics = metrics_new, vs_batch = [], vs_last = 0\<rparr>"
  let ?st' = "\<lparr>vs_world = (rworld_of [] 0)\<lparr>rw_taken := sample_ring\<rparr>,
    vs_metrics = record_drop (record_drop metrics_new 2) 2,
    vs_batch = [stamped 5, stamped 5], vs_last = 5\<rparr>"
  have run: "?st' = drain_loop rw_api vec_api 2 BATCH_SIZE
      (?st\<lparr>vs_batch := batch_clear vec_api (vs_batch ?st)\<rparr>)"
    using sample_drain by simp
  show ?thesis
    using drain_fills_batch [OF ref_env _ _ run] by (simp add: NCPU_def rworld_of_def)
qed

lemma delivered_subseq: "subseq (delivered fs outs) fs"
  by (induction fs outs rule: delivered.induct) auto

lemma subseq_in_set: "subseq xs ys \<Longrightarrow> x \<in> set xs \<Longrightarrow> x \<in> set ys"
  by (induction rule: list_emb.induct) auto

lemma subseq_sorted: "subseq xs ys \<Longrightarrow> sorted (map f ys) \<Longrightarrow> sorted (map f xs)"
  by (induction rule: list_emb.induct) (auto dest: subseq_in_set)

text \<open>
  C3. A whole run of a worker, from pinning to shutdown, under the contract. Of the records
  it read, exactly the accepted ones (64 bytes, timestamp not below the last accepted one)
  were offered to the channel, in order; the frames sent are those the channel took. Every
  record is accounted for once: the \<^verbatim>\<open>ok\<close>, \<^verbatim>\<open>dropped\<close> and \<^verbatim>\<open>channel_full\<close> counters of its CPU
  grow by the sent, rejected and refused records, which together with the sends to a
  disconnected channel make up all records read; no other CPU's counter moves.
\<close>

theorem worker_conserves_records:
  assumes "vacuum_env api sent taken bapi contents" and "metrics_wf m" and "cpu < NCPU"
    and "vacuum_entry api bapi cpu m w = Some (w', m', ShutDown)"
  shows "\<exists>rs outs. taken w' = taken w @ rs \<and> length outs = length (accepted 0 rs) \<and>
    sent w' = sent w @ delivered (accepted 0 rs) outs \<and>
    counted m m' cpu (length (delivered (accepted 0 rs) outs))
      (length rs - length (accepted 0 rs)) (count_list outs (Inl Full)) \<and>
    length rs = length (delivered (accepted 0 rs) outs) +
      (length rs - length (accepted 0 rs)) + count_list outs (Inl Full) +
      count_list outs (Inl Disconnected)"
proof -
  from vacuum_env.vacuum_entry_ran [OF assms(1,4,2,3)] obtain rs outs where r:
    "taken w' = taken w @ rs" "length outs = length (accepted 0 rs)"
    "sent w' = sent w @ delivered (accepted 0 rs) outs"
    "counted m m' cpu (count_list outs (Inr ())) (length rs - length (accepted 0 rs))
      (count_list outs (Inl Full))"
    by blast
  have "length (delivered (accepted 0 rs) outs) = count_list outs (Inr ())"
    using r(2) by (simp add: length_delivered)
  with r count_outcomes [of outs] length_accepted [of 0 rs] show ?thesis
    by (intro exI [of _ rs] exI [of _ outs]) simp
qed

theorem worker_conserves_records_witness:
  "\<exists>rs outs. rs = sample_ring \<and> [stamped 5, stamped 5] = delivered (accepted 0 rs) outs \<and>
     counted metrics_new metrics_sample 2 (Suc (Suc 0)) 2 0"
proof -
  have w: "rw_sent (rworld_of sample_ring 1) = []" "rw_taken (rworld_of sample_ring 1) = []"
    "rw_sent after_sample = [stamped 5, stamped 5]" "rw_taken after_sample = sample_ring"
    by (simp_all add: rw_sent_def rworld_of_def after_sample_def chan_new_def)
  have "length sample_ring = 4" by (simp add: sample_ring_def)
  with worker_conserves_records [OF ref_env metrics_wf_new _ sample_run] w show ?thesis
    by (auto simp: NCPU_def accepted_sample)
qed

text \<open>
  C21. What a worker sends in a run is in timestamp order, equal timestamps included, and
  every frame sent is well formed and the cast of a 64-byte record the worker read.
\<close>

theorem worker_sends_in_order:
  assumes "vacuum_env api sent taken bapi contents" and "metrics_wf m" and "cpu < NCPU"
    and "vacuum_entry api bapi cpu m w = Some (w', m', ShutDown)"
  shows "\<exists>rs fs. taken w' = taken w @ rs \<and> sent w' = sent w @ fs \<and>
    sorted (map timestamp_ns fs) \<and>
    (\<forall>f \<in> set fs. frame_wf f \<and> (\<exists>r \<in> set rs. length r = 64 \<and> f = frame_of_bytes r))"
proof -
  from vacuum_env.vacuum_entry_ran [OF assms(1,4,2,3)] obtain rs outs where r:
    "taken w' = taken w @ rs" "length outs = length (accepted 0 rs)"
    "sent w' = sent w @ delivered (accepted 0 rs) outs"
    by blast
  have "subseq (delivered (accepted 0 rs) outs) (accepted 0 rs)"
    by (rule delivered_subseq)
  then show ?thesis
    using r sorted_accepted [of 0 rs] accepted_wf accepted_from
    by (intro exI [of _ rs] exI [of _ "delivered (accepted 0 rs) outs"])
      (auto intro: subseq_sorted dest: subseq_in_set)
qed

theorem worker_sends_in_order_witness:
  "\<exists>fs. rw_sent after_sample = fs \<and> length fs = 2 \<and> sorted (map timestamp_ns fs)"
proof -
  have w: "rw_sent (rworld_of sample_ring 1) = []" "length (rw_sent after_sample) = 2"
    by (simp_all add: rw_sent_def rworld_of_def after_sample_def chan_new_def)
  with worker_sends_in_order [OF ref_env metrics_wf_new _ sample_run] show ?thesis
    by (auto simp: NCPU_def)
qed

lemma dispatch_loop_room:
  assumes "bounded_fifo (try_send api) sent connected room" "cpu < NCPU"
  shows "connected w \<Longrightarrow> metrics_wf m \<Longrightarrow> dispatch_loop api cpu fs w m = (w', m') \<Longrightarrow>
    sent w' = sent w @ take (room w) fs \<and>
    counted m m' cpu (min (length fs) (room w)) 0 (length fs - room w)"
proof (induction fs arbitrary: w m)
  case Nil
  then show ?case by (simp add: counted_refl)
next
  case (Cons f fs)
  obtain w1 m1 ok where d: "try_dispatch (try_send api) w f cpu m = (w1, m1, ok)"
    by (cases "try_dispatch (try_send api) w f cpu m") auto
  let ?m2 = "if ok then record_ok m1 cpu else m1"
  note r = bounded_fifo.dispatch_room [OF assms(1) Cons.prems(1) d]
  have c: "counted m ?m2 cpu (if ok then 1 else 0) 0 (if ok then 0 else 1)"
    using r Cons.prems(2) assms(2) counted_ok counted_full by auto
  have "dispatch_loop api cpu fs w1 ?m2 = (w', m')"
    using Cons.prems(3) d by simp
  from Cons.IH [OF _ counted_wf [OF c] this] r have IH:
    "sent w' = sent w1 @ take (room w - 1) fs"
    "counted ?m2 m' cpu (min (length fs) (room w - 1)) 0 (length fs - (room w - 1))"
    by auto
  show ?case
    using r IH(1) counted_trans [OF c IH(2)]
    by (cases "room w") (auto split: if_splits)
qed

text \<open>
  C37. The channel absorbs four batches without its consumer, as the comment of
  \<^verbatim>\<open>dispatch.rs\<close> claims: frames dispatched one after another into an empty connected
  channel are sent in order up to the capacity of 1024, and every further one is discarded
  and counted once as backpressure.
\<close>

theorem channel_absorbs_burst:
  assumes "bounded_fifo (try_send api) sent connected room" and "connected w"
    and "room w = DISPATCH_CAPACITY" and "metrics_wf m" and "cpu < NCPU"
    and "dispatch_loop api cpu fs w m = (w', m')"
  shows "DISPATCH_CAPACITY = 4 * BATCH_SIZE \<and> sent w' = sent w @ take 1024 fs \<and>
    ok_at m' cpu = ok_at m cpu + of_nat (min (length fs) 1024) \<and>
    full_at m' cpu = full_at m cpu + of_nat (length fs - 1024) \<and> drop_at m' cpu = drop_at m cpu"
proof -
  have c: "DISPATCH_CAPACITY = 1024" "DISPATCH_CAPACITY = 4 * BATCH_SIZE"
    by (simp_all add: DISPATCH_CAPACITY_def BATCH_SIZE_def)
  have "sent w' = sent w @ take 1024 fs \<and> counted m m' cpu (min (length fs) 1024) 0 (length fs - 1024)"
    using dispatch_loop_room [OF assms(1,5,2,4,6)] by (simp only: assms(3) c(1))
  with c(2) assms(5) show ?thesis
    by (simp add: counted_def)
qed

theorem channel_absorbs_burst_witness:
  "rw_sent (fst (dispatch_loop rw_api 2 (replicate 1500 zeroed) (rworld_of [] 0) metrics_new)) =
     replicate 1024 zeroed \<and>
   full_at (snd (dispatch_loop rw_api 2 (replicate 1500 zeroed) (rworld_of [] 0) metrics_new)) 2 = 476"
proof -
  have b: "bounded_fifo (try_send rw_api) rw_sent (\<lambda>w. ch_open (rw_chan w)) (\<lambda>w. ch_room (rw_chan w))"
    by unfold_locales
      (auto simp: rw_sent_def chan_try_send_def ch_room_def split: prod.splits if_splits)
  have s: "ch_open (rw_chan (rworld_of [] 0))" "ch_room (rw_chan (rworld_of [] 0)) = DISPATCH_CAPACITY"
    "rw_sent (rworld_of [] 0) = []" "(2 :: nat) < NCPU"
    by (simp_all add: rworld_of_def chan_new_def ch_room_def rw_sent_def NCPU_def)
  obtain w' m' where d: "dispatch_loop rw_api 2 (replicate 1500 zeroed) (rworld_of [] 0) metrics_new = (w', m')"
    by (cases "dispatch_loop rw_api 2 (replicate 1500 zeroed) (rworld_of [] 0) metrics_new")
  from channel_absorbs_burst [OF b s(1,2) metrics_wf_new s(4) d] s(3,4) show ?thesis
    by (simp add: d)
qed

text \<open>
  Pinning comes before any ring access: when the affinity call fails the worker ends in
  a panic with the metrics untouched and nothing read or sent, and otherwise it ends, if at
  all, by the shutdown flag, never by a panic.
\<close>

theorem affinity_gate:
  assumes "vacuum_env api sent taken bapi contents" and "set_affinity api w cpu = (w1, ok)"
  shows "if ok
    then \<forall>w' m' e. vacuum_entry api bapi cpu m w = Some (w', m', e) \<longrightarrow> e = ShutDown
    else vacuum_entry api bapi cpu m w = Some (w1, m, AffinityPanic) \<and>
      taken w1 = taken w \<and> sent w1 = sent w"
proof -
  have "taken w1 = taken w \<and> sent w1 = sent w"
    using vac_world.affinity_frame [OF vacuum_env.axioms(1) [OF assms(1)] assms(2)] .
  with assms(2) show ?thesis
    by (auto simp: vacuum_entry_def split: option.splits)
qed

theorem affinity_gate_witness:
  "vacuum_entry rw_api vec_api 40 metrics_new (rworld_of sample_ring 1) =
     Some (rworld_of sample_ring 1, metrics_new, AffinityPanic) \<and>
   rw_taken (rworld_of sample_ring 1) = []"
proof -
  have s: "set_affinity rw_api (rworld_of sample_ring 1) 40 = (rworld_of sample_ring 1, False)"
    by (simp add: rworld_of_def NCPU_def)
  from affinity_gate [OF ref_env s, of metrics_new] show ?thesis
    by (simp add: rworld_of_def)
qed

end
