(* ===== verification/SG_Smp.thy ===== *)
theory SG_Smp
  imports SG_Xdp SG_VacuumRun
begin

text \<open>
  The kernel program on several CPUs that share one ring. A CPU runs \<^verbatim>\<open>xdp_ingress\<close>
  without preemption by itself, but another CPU can act between the clock read that stamps a
  frame and the output that commits it, so an invocation is the two steps \<open>xdp_prepare\<close> and
  \<open>xdp_commit\<close> of its CPU. The records of the ring are what the vacuum worker's timestamp
  check (\<^verbatim>\<open>sg-capture/src/vacuum.rs\<close>) then sees.
\<close>

section \<open>Steps\<close>

text \<open>
  A state is the shared kernel and, per CPU, the frame that is prepared and not yet
  committed. \<open>on_cpu c\<close> is the kernel as CPU \<open>c\<close> sees it. The step \<open>other\<close> is anything the
  rest of the system does: the clock advances, records are consumed, the deny list changes.
\<close>

type_synonym 'k smp = "'k \<times> (u32 \<Rightarrow> signal_frame option)"

inductive smp_step ::
  "'k bpf_api \<Rightarrow> ('k \<Rightarrow> bool) \<Rightarrow> ('k \<Rightarrow> u8 list list) \<Rightarrow> (u32 \<Rightarrow> 'k \<Rightarrow> 'k) \<Rightarrow> 'k smp \<Rightarrow> 'k smp \<Rightarrow> bool"
  for api kinv records on_cpu where
  prepare: "pend c = None \<Longrightarrow> xdp_prepare api (on_cpu c k) ctx = Some (k', fo) \<Longrightarrow>
    smp_step api kinv records on_cpu (k, pend) (k', pend(c := fo))"
| commit: "pend c = Some f \<Longrightarrow> xdp_commit api (on_cpu c k) f = (k', a) \<Longrightarrow>
    smp_step api kinv records on_cpu (k, pend) (k', pend(c := None))"
| other: "kinv k' \<Longrightarrow> records k' = records k \<Longrightarrow> ktime_get_ns api k \<le> ktime_get_ns api k' \<Longrightarrow>
    smp_step api kinv records on_cpu (k, pend) (k', pend)"

inductive_cases smp_stepE: "smp_step api kinv records on_cpu s s'"

definition smp_reach ::
  "'k bpf_api \<Rightarrow> ('k \<Rightarrow> bool) \<Rightarrow> ('k \<Rightarrow> u8 list list) \<Rightarrow> (u32 \<Rightarrow> 'k \<Rightarrow> 'k) \<Rightarrow> 'k \<Rightarrow> 'k smp \<Rightarrow> bool" where
  "smp_reach api kinv records on_cpu k0 s \<longleftrightarrow>
     (smp_step api kinv records on_cpu)\<^sup>*\<^sup>* (k0, \<lambda>_. None) s"

section \<open>The records of one CPU\<close>

definition rec_ts :: "u8 list \<Rightarrow> u64" where
  "rec_ts r = timestamp_ns (frame_of_bytes r)"

definition rec_cpu :: "u8 list \<Rightarrow> u32" where
  "rec_cpu r = cpu_id (frame_of_bytes r)"

definition of_cpu :: "u32 \<Rightarrow> u8 list list \<Rightarrow> u8 list list" where
  "of_cpu c rs = filter (\<lambda>r. rec_cpu r = c) rs"

definition cpu_ordered :: "u8 list list \<Rightarrow> bool" where
  "cpu_ordered rs \<longleftrightarrow> (\<forall>c. sorted (map rec_ts (of_cpu c rs)))"

lemma cpu_ordered_snoc:
  "cpu_ordered (rs @ [r]) \<longleftrightarrow>
     cpu_ordered rs \<and> (\<forall>q \<in> set rs. rec_cpu q = rec_cpu r \<longrightarrow> rec_ts q \<le> rec_ts r)"
  by (auto simp: cpu_ordered_def of_cpu_def sorted_append)

text \<open>The invariant: committed records are ordered per CPU, and pending frames come after them.\<close>

definition smp_inv ::
  "'k bpf_api \<Rightarrow> ('k \<Rightarrow> bool) \<Rightarrow> ('k \<Rightarrow> u8 list list) \<Rightarrow> 'k smp \<Rightarrow> bool" where
  "smp_inv api kinv records s \<longleftrightarrow>
     (case s of (k, pend) \<Rightarrow>
        kinv k \<and> cpu_ordered (records k) \<and>
        (\<forall>r \<in> set (records k). length r = 64 \<and> rec_ts r \<le> ktime_get_ns api k) \<and>
        (\<forall>c f. pend c = Some f \<longrightarrow> frame_wf f \<and> cpu_id f = c \<and> timestamp_ns f \<le> ktime_get_ns api k \<and>
           (\<forall>r \<in> set (records k). rec_cpu r = c \<longrightarrow> rec_ts r \<le> timestamp_ns f)))"

section \<open>The kernel as several CPUs see it\<close>

text \<open>
  In addition to the map contract: the view of a CPU has its number and the same ring and
  clock, and no operation turns the clock back.
\<close>

locale smp_kernel = bpf_maps api kinv deny pps records
  for api :: "'k bpf_api" and kinv deny pps records +
  fixes on_cpu :: "u32 \<Rightarrow> 'k \<Rightarrow> 'k"
  assumes on_cpu: "kinv k \<Longrightarrow> kinv (on_cpu c k) \<and> records (on_cpu c k) = records k \<and>
      smp_processor_id api (on_cpu c k) = c \<and> ktime_get_ns api k \<le> ktime_get_ns api (on_cpu c k)"
    and store_clock: "kinv k \<Longrightarrow> pps_get_ptr_mut api k 0 = Some p \<Longrightarrow>
      ktime_get_ns api k \<le> ktime_get_ns api (store_u64 api k p v)"
    and ring_clock: "kinv k \<Longrightarrow> signal_ring_output api k bs fl = (k', r) \<Longrightarrow>
      ktime_get_ns api k \<le> ktime_get_ns api k'"
begin

lemma prepare_clock:
  assumes "kinv k" "xdp_prepare api k ctx = Some (k', fo)"
  shows "ktime_get_ns api k \<le> ktime_get_ns api k'"
proof -
  have "k' = k \<or> (\<exists>p v. pps_get_ptr_mut api k 0 = Some p \<and> k' = store_u64 api k p v)"
    using assms(2)
    by (auto simp: xdp_prepare_cases select_def Let_def split: option.splits if_splits)
  with store_clock [OF assms(1)] show ?thesis by auto
qed

lemma commit_clock:
  assumes "kinv k" "xdp_commit api k f = (k', a)"
  shows "ktime_get_ns api k \<le> ktime_get_ns api k'"
  using assms(2) ring_clock [OF assms(1)]
  by (auto simp: xdp_commit_def ring_output_def split: prod.splits if_splits)

lemma prepare_inv:
  assumes "smp_inv api kinv records (k, pend)" "pend c = None"
    and "xdp_prepare api (on_cpu c k) ctx = Some (k', fo)"
  shows "smp_inv api kinv records (k', pend(c := fo))"
proof -
  have k: "kinv k" "cpu_ordered (records k)"
    "\<And>r. r \<in> set (records k) \<Longrightarrow> length r = 64 \<and> rec_ts r \<le> ktime_get_ns api k"
    "\<And>c f. pend c = Some f \<Longrightarrow> frame_wf f \<and> cpu_id f = c \<and> timestamp_ns f \<le> ktime_get_ns api k \<and>
       (\<forall>r \<in> set (records k). rec_cpu r = c \<longrightarrow> rec_ts r \<le> timestamp_ns f)"
    using assms(1) by (auto simp: smp_inv_def)
  have c: "kinv (on_cpu c k)" "records (on_cpu c k) = records k" "smp_processor_id api (on_cpu c k) = c"
    using on_cpu [OF k(1)] by auto
  have clk: "ktime_get_ns api k \<le> ktime_get_ns api k'"
    using on_cpu [OF k(1), of c] prepare_clock [OF c(1) assms(3)] by (blast intro: order_trans)
  have "kinv k' \<and> records k' = records k \<and> (\<forall>f. fo = Some f \<longrightarrow>
      frame_wf f \<and> cpu_id f = c \<and> timestamp_ns f = ktime_get_ns api k')"
    using prepare_effect [OF c(1) assms(3)] c
    by (auto simp: frame_for_def frame_wf_def parse_packet_header split: option.splits if_splits)
  with k clk show ?thesis
    by (auto simp: smp_inv_def intro: order_trans)
qed

lemma commit_inv:
  assumes "smp_inv api kinv records (k, pend)" "pend c = Some f"
    and "xdp_commit api (on_cpu c k) f = (k', a)"
  shows "smp_inv api kinv records (k', pend(c := None))"
proof -
  have k: "kinv k" "cpu_ordered (records k)"
    "\<And>r. r \<in> set (records k) \<Longrightarrow> length r = 64 \<and> rec_ts r \<le> ktime_get_ns api k"
    "\<And>c f. pend c = Some f \<Longrightarrow> frame_wf f \<and> cpu_id f = c \<and> timestamp_ns f \<le> ktime_get_ns api k \<and>
       (\<forall>r \<in> set (records k). rec_cpu r = c \<longrightarrow> rec_ts r \<le> timestamp_ns f)"
    using assms(1) by (auto simp: smp_inv_def)
  have c: "kinv (on_cpu c k)" "records (on_cpu c k) = records k"
    using on_cpu [OF k(1)] by auto
  have clk: "ktime_get_ns api k \<le> ktime_get_ns api k'"
    using on_cpu [OF k(1), of c] commit_clock [OF c(1) assms(3)] by (blast intro: order_trans)
  note f = k(4) [OF assms(2)]
  have r: "rec_ts (frame_bytes f) = timestamp_ns f" "rec_cpu (frame_bytes f) = c" "length (frame_bytes f) = 64"
    using f by (simp_all add: rec_ts_def rec_cpu_def fc.dec_enc)
  have e: "kinv k'" "records k' = records k \<or> records k' = records k @ [frame_bytes f]"
    using commit_effect [OF c(1) assms(3)] c(2) by auto
  from e(2) show ?thesis
  proof
    assume "records k' = records k"
    with k e(1) clk show ?thesis by (auto simp: smp_inv_def intro: order_trans)
  next
    assume new: "records k' = records k @ [frame_bytes f]"
    have "cpu_ordered (records k')"
      using k(2) f r by (simp add: new cpu_ordered_snoc)
    with k e(1) clk f r show ?thesis
      by (auto simp: smp_inv_def new intro: order_trans)
  qed
qed

lemma other_inv:
  "smp_inv api kinv records (k, pend) \<Longrightarrow> kinv k' \<Longrightarrow> records k' = records k \<Longrightarrow>
   ktime_get_ns api k \<le> ktime_get_ns api k' \<Longrightarrow> smp_inv api kinv records (k', pend)"
  by (auto simp: smp_inv_def intro: order_trans)

lemma step_inv:
  "smp_step api kinv records on_cpu s s' \<Longrightarrow> smp_inv api kinv records s \<Longrightarrow> smp_inv api kinv records s'"
  by (elim smp_stepE) (blast intro: prepare_inv commit_inv other_inv)+

lemma reach_inv:
  assumes "kinv k0" "records k0 = []" "smp_reach api kinv records on_cpu k0 s"
  shows "smp_inv api kinv records s"
proof -
  have "smp_inv api kinv records (k0, \<lambda>_. None)"
    using assms(1,2) by (simp add: smp_inv_def cpu_ordered_def of_cpu_def)
  with assms(3) show ?thesis
    unfolding smp_reach_def by (induction rule: rtranclp_induct) (auto intro: step_inv)
qed

end

section \<open>The reference kernel on several CPUs\<close>

definition ref_on_cpu :: "u32 \<Rightarrow> kstate \<Rightarrow> kstate" where
  "ref_on_cpu c k = k\<lparr>ks_cpu := c\<rparr>"

lemma ref_smp: "smp_kernel ref_bpf ref_inv ks_deny ref_pps ks_history ref_on_cpu"
  by unfold_locales
    (auto simp: ref_bpf_def ref_inv_def ref_output_def ref_on_cpu_def split: if_splits)

interpretation rs: smp_kernel ref_bpf ref_inv ks_deny ref_pps ks_history ref_on_cpu
  by (rule ref_smp)

section \<open>What the timestamp check makes of the records\<close>

lemma of_cpu_all: "\<forall>r \<in> set rs. rec_cpu r = c \<Longrightarrow> of_cpu c rs = rs"
  by (simp add: of_cpu_def)

lemma accepted_of_cpu:
  assumes "cpu_ordered rs" "\<forall>r \<in> set rs. length r = 64"
  shows "accepted 0 (of_cpu c rs) = map frame_of_bytes (of_cpu c rs)"
proof (rule accepted_all)
  show "\<forall>r \<in> set (of_cpu c rs). length r = 64"
    using assms(2) by (simp add: of_cpu_def)
  have "sorted (map rec_ts (of_cpu c rs))"
    using assms(1) by (simp add: cpu_ordered_def)
  then show "sorted (0 # map (timestamp_ns \<circ> frame_of_bytes) (of_cpu c rs))"
    by (simp add: rec_ts_def [abs_def] comp_def)
qed

lemma accepted_one_cpu:
  assumes "cpu_ordered (rs @ ss)" "\<forall>r \<in> set rs. length r = 64 \<and> rec_cpu r = c"
  shows "accepted 0 rs = map frame_of_bytes rs"
proof -
  have "cpu_ordered rs"
    using assms(1) by (auto simp: cpu_ordered_def of_cpu_def sorted_append)
  moreover have "of_cpu c rs = rs"
    using assms(2) by (simp add: of_cpu_all)
  ultimately show ?thesis
    using accepted_of_cpu [of rs c] assms(2) by simp
qed

section \<open>Two CPUs racing for the ring\<close>

text \<open>CPU \<open>c\<close> stamps a frame at \<open>t\<close>, CPU \<open>c'\<close> stamps one later and commits it first.\<close>

lemma prepare_at:
  assumes "ks_deny k = replicate 65536 0" "ks_pps k (unat (ks_cpu k)) = 0"
  shows "xdp_prepare ref_bpf k (ctx_of sample_packet) =
    Some (k\<lparr>ks_pps := (ks_pps k)(unat (ks_cpu k) := 1)\<rparr>,
      Some (frame_for (ks_now k) (ks_cpu k) 0 parsed_sample))"
proof -
  have "\<not> deny_check ref_bpf k (view_hash parsed_sample)"
  proof -
    have "ref_inv k" using assms(1) by (simp add: ref_inv_def DENY_MAP_ENTRIES_def)
    from rk.deny_check_iff [OF this] show ?thesis
      unfolding assms(1) by (simp only:) (subst nth_replicate, simp_all add: DENY_MAP_ENTRIES_def)
  qed
  then have "select ref_bpf k parsed_sample =
      (k\<lparr>ks_pps := (ks_pps k)(unat (ks_cpu k) := 1)\<rparr>,
       Some \<lparr>fr_flow_hash = view_hash parsed_sample, fr_pps_delta = 0\<rparr>)"
    using assms(2) by (simp add: select_def Let_def ref_bpf_def MAXPPS_THRESHOLD_def saturating_add_def)
  moreover have "ktime_get_ns ref_bpf k' = ks_now k'" "smp_processor_id ref_bpf k' = ks_cpu k'" for k'
    by (simp_all add: ref_bpf_def)
  ultimately show ?thesis
    by (simp add: xdp_prepare_cases parsed_sample build_frame_for)
qed

lemma commit_at:
  assumes "length (ks_unread k) \<le> 1" "\<forall>r \<in> set (ks_unread k). length r = 64" "frame_wf f"
  shows "xdp_commit ref_bpf k f =
    (k\<lparr>ks_unread := ks_unread k @ [frame_bytes f], ks_history := ks_history k @ [frame_bytes f]\<rparr>, XDP_PASS)"
proof -
  have "sum_list (map record_cost (ks_unread k)) \<le> 72"
    using assms(1,2) by (cases "ks_unread k") (auto simp: record_cost_def align_up_def)
  then have "sum_list (map record_cost (ks_unread k)) + record_cost (frame_bytes f) < SIGNAL_RING_BYTES"
    using assms(3) by (simp add: record_cost_def align_up_def SIGNAL_RING_BYTES_def)
  then show ?thesis
    by (simp add: xdp_commit_def ring_output_def pass_cold_def ref_bpf_def ref_output_def)
qed

definition race_frame :: "u64 \<Rightarrow> u32 \<Rightarrow> signal_frame" where
  "race_frame t c = frame_for t c 0 parsed_sample"

definition race_kernel :: "u64 \<Rightarrow> u32 \<Rightarrow> nat set \<Rightarrow> signal_frame list \<Rightarrow> kstate" where
  "race_kernel now c used fs = (boot c now)\<lparr>ks_pps := (\<lambda>i. if i \<in> used then 1 else 0),
     ks_unread := map frame_bytes fs, ks_history := map frame_bytes fs\<rparr>"

lemma race_frame [simp]: "frame_wf (race_frame t c)" "timestamp_ns (race_frame t c) = t"
  "cpu_id (race_frame t c) = c"
  by (simp_all add: race_frame_def) (simp_all add: frame_for_def)

lemma race_on_cpu: "ref_on_cpu c (race_kernel now c' used fs) = race_kernel now c used fs"
  by (simp add: ref_on_cpu_def race_kernel_def boot_def)

lemma race_prepare:
  "pend c = None \<Longrightarrow> unat c \<notin> used \<Longrightarrow>
   smp_step ref_bpf ref_inv ks_history ref_on_cpu (race_kernel now c' used fs, pend)
     (race_kernel now c (insert (unat c) used) fs, pend(c := Some (race_frame now c)))"
proof -
  assume p: "pend c = None" "unat c \<notin> used"
  have "xdp_prepare ref_bpf (race_kernel now c used fs) (ctx_of sample_packet) =
      Some (race_kernel now c (insert (unat c) used) fs, Some (race_frame now c))"
    using p(2) prepare_at [of "race_kernel now c used fs"]
    by (simp add: race_kernel_def boot_def race_frame_def fun_eq_iff fun_upd_def)
  with p(1) show ?thesis
    by (intro smp_step.prepare [where ctx = "ctx_of sample_packet"]) (simp_all add: race_on_cpu)
qed

lemma race_commit:
  "pend c = Some f \<Longrightarrow> frame_wf f \<Longrightarrow> length fs \<le> 1 \<Longrightarrow> \<forall>g \<in> set fs. frame_wf g \<Longrightarrow>
   smp_step ref_bpf ref_inv ks_history ref_on_cpu (race_kernel now c' used fs, pend)
     (race_kernel now c used (fs @ [f]), pend(c := None))"
  using commit_at [of "race_kernel now c used fs" f]
  by (intro smp_step.commit [where f = f and a = XDP_PASS])
    (simp_all add: race_on_cpu, simp add: race_kernel_def boot_def)

lemma race_tick:
  "now \<le> now' \<Longrightarrow>
   smp_step ref_bpf ref_inv ks_history ref_on_cpu (race_kernel now c used fs, pend)
     (race_kernel now' c used fs, pend)"
  by (rule smp_step.other)
    (simp_all add: race_kernel_def boot_def ref_inv_def DENY_MAP_ENTRIES_def ref_bpf_def)

lemma race_history [simp]: "ks_history (race_kernel now c used fs) = map frame_bytes fs"
  by (simp add: race_kernel_def)

lemma race_reach:
  assumes "c \<noteq> c'" "t \<le> t'"
  shows "\<exists>k. smp_reach ref_bpf ref_inv ks_history ref_on_cpu (race_kernel t c {} []) (k, \<lambda>_. None) \<and>
     ks_history k = [frame_bytes (race_frame t' c'), frame_bytes (race_frame t c)]"
proof -
  let ?S = "smp_step ref_bpf ref_inv ks_history ref_on_cpu"
  let ?p0 = "(\<lambda>_. None)(c := Some (race_frame t c))"
  let ?p1 = "?p0(c' := Some (race_frame t' c'))"
  let ?u = "{unat c', unat c}"
  have ne: "unat c' \<noteq> unat c"
    using assms(1) by (metis word_unat_eq_iff)
  have s1: "?S (race_kernel t c {} [], \<lambda>_. None) (race_kernel t c {unat c} [], ?p0)"
    using race_prepare [of "\<lambda>_. None" c "{}" t c "[]"] by simp
  have s2: "?S (race_kernel t c {unat c} [], ?p0) (race_kernel t' c {unat c} [], ?p0)"
    using assms(2) by (rule race_tick)
  have s3: "?S (race_kernel t' c {unat c} [], ?p0) (race_kernel t' c' ?u [], ?p1)"
    using race_prepare [of ?p0 c' "{unat c}" t' c "[]"] assms(1) ne by simp
  have s4: "?S (race_kernel t' c' ?u [], ?p1) (race_kernel t' c' ?u [race_frame t' c'], ?p1(c' := None))"
    using race_commit [of ?p1 c' "race_frame t' c'" "[]" t' c' ?u] by simp
  have s5: "?S (race_kernel t' c' ?u [race_frame t' c'], ?p1(c' := None))
      (race_kernel t' c ?u [race_frame t' c', race_frame t c], ?p1(c' := None, c := None))"
    using race_commit [of "?p1(c' := None)" c "race_frame t c" "[race_frame t' c']" t' c' ?u] assms(1) by simp
  have none: "?p1(c' := None, c := None) = (\<lambda>_. None)"
    by (simp add: fun_eq_iff)
  have "?S\<^sup>*\<^sup>* (race_kernel t c {} [], \<lambda>_. None)
      (race_kernel t' c ?u [race_frame t' c', race_frame t c], \<lambda>_. None)"
    using s1 s2 s3 s4 s5 [unfolded none] by (meson converse_rtranclp_into_rtranclp rtranclp.rtrancl_refl)
  then show ?thesis
    unfolding smp_reach_def
    by (intro exI [of _ "race_kernel t' c ?u [race_frame t' c', race_frame t c]"]) simp
qed

lemma single_reach:
  "smp_reach ref_bpf ref_inv ks_history ref_on_cpu (race_kernel 10 0 {} [])
     (race_kernel 10 0 {0} [race_frame 10 0], \<lambda>_. None)"
proof -
  let ?S = "smp_step ref_bpf ref_inv ks_history ref_on_cpu"
  let ?p0 = "(\<lambda>_. None)(0 := Some (race_frame 10 0))"
  have s1: "?S (race_kernel 10 0 {} [], \<lambda>_. None) (race_kernel 10 0 {0} [], ?p0)"
    using race_prepare [of "\<lambda>_. None" 0 "{}" 10 0 "[]"] by simp
  have "?p0(0 := None) = (\<lambda>_. None)"
    by (simp add: fun_eq_iff)
  then have s2: "?S (race_kernel 10 0 {0} [], ?p0) (race_kernel 10 0 {0} [race_frame 10 0], \<lambda>_. None)"
    using race_commit [of ?p0 0 "race_frame 10 0" "[]" 10 0 "{0}"] by simp
  show ?thesis
    unfolding smp_reach_def using s1 s2 by (blast intro: converse_rtranclp_into_rtranclp)
qed

section \<open>Properties\<close>

text \<open>
  C12. Whatever the interleaving of the CPUs, under the kernel's contract: all records of the
  ring are 64 bytes, and those of one CPU are in timestamp order, so a worker that read only
  the records of one CPU would accept every one of them. In particular nothing is lost when
  all traffic is on one CPU.
\<close>

theorem cpu_stream_accepted:
  assumes "smp_kernel api kinv deny pps records on_cpu" and "kinv k0" and "records k0 = []"
    and "smp_reach api kinv records on_cpu k0 (k, pend)"
  shows "(\<forall>r \<in> set (records k). length r = SIGNAL_FRAME_SIZE) \<and>
    (\<forall>c. accepted 0 (of_cpu c (records k)) = map frame_of_bytes (of_cpu c (records k)))"
proof -
  have "smp_inv api kinv records (k, pend)"
    by (rule smp_kernel.reach_inv [OF assms])
  then have "cpu_ordered (records k)" "\<forall>r \<in> set (records k). length r = 64"
    by (auto simp: smp_inv_def)
  then show ?thesis
    using accepted_of_cpu by auto
qed

theorem cpu_stream_accepted_witness:
  "accepted 0 (of_cpu 1 [frame_bytes (race_frame 20 1), frame_bytes (race_frame 10 0)]) =
     [race_frame 20 1]"
proof -
  obtain k where r: "smp_reach ref_bpf ref_inv ks_history ref_on_cpu (race_kernel 10 0 {} []) (k, \<lambda>_. None)"
    and h: "ks_history k = [frame_bytes (race_frame 20 1), frame_bytes (race_frame 10 0)]"
    using race_reach [of 0 1 10 20] by auto
  have "ref_inv (race_kernel 10 0 {} [])" "ks_history (race_kernel 10 0 {} []) = []"
    by (simp_all add: race_kernel_def boot_def ref_inv_def DENY_MAP_ENTRIES_def)
  then have "accepted 0 (of_cpu 1 (ks_history k)) = map frame_of_bytes (of_cpu 1 (ks_history k))"
    using cpu_stream_accepted [OF ref_smp _ _ r] by blast
  moreover have "map frame_of_bytes (of_cpu 1 (ks_history k)) = [race_frame 20 1]"
    by (simp add: h of_cpu_def rec_cpu_def fc.dec_enc)
  ultimately show ?thesis by (simp only: h)
qed

text \<open>
  C16. The shared ring is not in timestamp order and the worker loses frames for it. Take two
  CPUs and two times: there is a reachable ring of two well-formed frames, stamped at these
  times by these CPUs, with the earlier one committed last. Every completed run of a worker that
  read just these two records counted one as dropped and sent the channel nothing but the
  other: the frame stamped first is lost. The comment of \<^verbatim>\<open>TIMESTAMP_SLACK_NS\<close> means the
  check for frames of the same CPU; the code compares all frames of the ring.
\<close>

theorem cross_cpu_frame_rejected:
  assumes "c \<noteq> c'" "t < t'" and f: "f = race_frame t c" "f' = race_frame t' c'"
    and "vacuum_env api sent taken bapi contents" "metrics_wf m" "cpu < NCPU"
    and "vacuum_entry api bapi cpu m w = Some (w', m', ShutDown)"
  shows "(\<exists>k. smp_reach ref_bpf ref_inv ks_history ref_on_cpu (race_kernel t c {} []) (k, \<lambda>_. None)
      \<and> ks_history k = [frame_bytes f', frame_bytes f])
    \<and> frame_wf f \<and> cpu_id f = c \<and> timestamp_ns f = t
    \<and> frame_wf f' \<and> cpu_id f' = c' \<and> timestamp_ns f' = t'
    \<and> (taken w' = taken w @ [frame_bytes f', frame_bytes f] \<longrightarrow>
        drop_at m' cpu = drop_at m cpu + 1 \<and> (sent w' = sent w \<or> sent w' = sent w @ [f']))"
proof -
  obtain rs outs where ran: "taken w' = taken w @ rs" "length outs = length (accepted 0 rs)"
      "sent w' = sent w @ delivered (accepted 0 rs) outs"
      "counted m m' cpu (count_list outs (Inr ())) (length rs - length (accepted 0 rs)) (count_list outs (Inl Full))"
    using vacuum_env.vacuum_entry_ran [OF assms(5,8,6,7)] by blast
  have acc: "accepted 0 [frame_bytes f', frame_bytes f] = [f']"
    using assms(2) by (simp add: f good_def fc.dec_enc)
  have "drop_at m' cpu = drop_at m cpu + 1 \<and> (sent w' = sent w \<or> sent w' = sent w @ [f'])"
    if "taken w' = taken w @ [frame_bytes f', frame_bytes f]"
  proof -
    have rs: "rs = [frame_bytes f', frame_bytes f]" using ran(1) that by simp
    then obtain r where "outs = [r]" using ran(2) acc by (cases outs) auto
    then show ?thesis using ran(3,4) assms(7) acc unfolding rs by (simp add: counted_def del: accepted.simps)
  qed
  then show ?thesis
    using race_reach [OF assms(1) less_imp_le [OF assms(2)]] by (simp add: f)
qed

theorem cross_cpu_frame_rejected_witness:
  "\<exists>w' m'. vacuum_entry rw_api vec_api 2 metrics_new
       (rworld_of [frame_bytes (race_frame 20 1), frame_bytes (race_frame 10 0)] 1) = Some (w', m', ShutDown)
     \<and> length (rw_taken w') = 2 \<and> drop_at m' 2 = 1 \<and> length (rw_sent w') \<le> 1"
proof -
  let ?rs = "[frame_bytes (race_frame 20 1), frame_bytes (race_frame 10 0)]"
  have cpu: "2 < NCPU" and wf: "metrics_wf metrics_new" by (simp_all add: NCPU_def)
  obtain w' m' where run: "vacuum_entry rw_api vec_api 2 metrics_new (rworld_of ?rs 1) = Some (w', m', ShutDown)"
    "rw_taken w' = ?rs"
    using regressed_run [OF _ _ cpu, of "frame_bytes (race_frame 20 1)" "frame_bytes (race_frame 10 0)"]
    by (auto simp: good_def fc.dec_enc)
  have start: "rw_taken (rworld_of ?rs 1) = []" "rw_sent (rworld_of ?rs 1) = []"
    by (simp_all add: rworld_of_def rw_sent_def chan_new_def)
  have lt: "(0 :: u32) \<noteq> 1" "(10 :: u64) < 20" by simp_all
  from cross_cpu_frame_rejected [OF lt refl refl ref_env wf cpu run(1)]
  have "drop_at m' 2 = 1" "rw_sent w' = [] \<or> rw_sent w' = [race_frame 20 1]"
    using run(2) start cpu by simp_all
  with run show ?thesis by (intro exI [of _ w'] exI [of _ m']) auto
qed

end
