(* ===== verification/SG_WorkerSteps.thy ===== *)
theory SG_WorkerSteps
  imports SG_VacuumRun
begin

text \<open>
  The poll loop of \<^verbatim>\<open>sg-capture/src/vacuum.rs\<close> in small steps: one step per call that
  touches shared state (the flag, the ring, the channel, the yield), so that the kernel, the
  consumer and the rest of the process can act between any two of them. The steps are proved
  to compute the same result as \<open>poll_loop\<close>, to account for every record at every moment
  whatever happens in between, and to end within a bounded number of steps once the shutdown
  flag is up.
\<close>

section \<open>Steps of the loop\<close>

text \<open>Where the worker is; the frames of \<open>Dispatching\<close> are those the drained batch still yields.\<close>

datatype pc =
    AtCheck
  | Draining nat
  | Dispatching "signal_frame list"
  | Yielding
  | Stopped

text \<open>The end of the drain loop: the batch is drained into the dispatch loop.\<close>

definition start_dispatch :: "'b batch_api \<Rightarrow> ('w, 'b) vac_state \<Rightarrow> pc \<times> ('w, 'b) vac_state" where
  "start_dispatch bapi st =
     (case batch_drain bapi (vs_batch st) of (fs, b') \<Rightarrow> (Dispatching fs, st\<lparr>vs_batch := b'\<rparr>))"

fun wstep ::
  "'w vac_api \<Rightarrow> 'b batch_api \<Rightarrow> nat \<Rightarrow> pc \<times> ('w, 'b) vac_state \<Rightarrow> pc \<times> ('w, 'b) vac_state" where
  "wstep api bapi cpu (AtCheck, st) =
     (case load_shutdown api (vs_world st) of (w', stop) \<Rightarrow>
        if stop then (Stopped, st\<lparr>vs_world := w'\<rparr>)
        else (Draining BATCH_SIZE, st\<lparr>vs_world := w', vs_batch := batch_clear bapi (vs_batch st)\<rparr>))"
| "wstep api bapi cpu (Draining 0, st) = start_dispatch bapi st"
| "wstep api bapi cpu (Draining (Suc n), st) =
     (case ring_next api (vs_world st) of
        (w', None) \<Rightarrow> start_dispatch bapi (st\<lparr>vs_world := w'\<rparr>)
      | (w', Some raw) \<Rightarrow> (Draining n, take_record bapi cpu raw (st\<lparr>vs_world := w'\<rparr>)))"
| "wstep api bapi cpu (Dispatching [], st) = (Yielding, st)"
| "wstep api bapi cpu (Dispatching (f # fs), st) =
     (case try_dispatch (try_send api) (vs_world st) f cpu (vs_metrics st) of
        (w', m', ok) \<Rightarrow>
          (Dispatching fs, st\<lparr>vs_world := w', vs_metrics := if ok then record_ok m' cpu else m'\<rparr>))"
| "wstep api bapi cpu (Yielding, st) = (AtCheck, st\<lparr>vs_world := yield_now api (vs_world st)\<rparr>)"
| "wstep api bapi cpu (Stopped, st) = (Stopped, st)"

lemma pc_state_cases [case_names check drained drain dispatched dispatch yield stopped]:
  fixes s :: "pc \<times> ('w, 'b) vac_state"
  obtains st where "s = (AtCheck, st)"
    | st where "s = (Draining 0, st)"
    | n st where "s = (Draining (Suc n), st)"
    | st where "s = (Dispatching [], st)"
    | f fs st where "s = (Dispatching (f # fs), st)"
    | st where "s = (Yielding, st)"
    | st where "s = (Stopped, st)"
proof -
  obtain p st where "s = (p, st)" by (cases s)
  then show ?thesis
  proof (cases p)
    case (Draining n)
    then show ?thesis using that(2,3) \<open>s = (p, st)\<close> by (cases n) auto
  next
    case (Dispatching fs)
    then show ?thesis using that(4,5) \<open>s = (p, st)\<close> by (cases fs) auto
  qed (use that in auto)
qed

section \<open>The steps compute the loop\<close>

abbreviation wsteps where
  "wsteps api bapi cpu n \<equiv> wstep api bapi cpu ^^ n"

lemma wsteps_Suc: "wsteps api bapi cpu (Suc n) s = wsteps api bapi cpu n (wstep api bapi cpu s)"
  by (simp add: funpow_swap1)

lemma wsteps_add: "wsteps api bapi cpu (m + n) s = wsteps api bapi cpu n (wsteps api bapi cpu m s)"
  by (simp add: funpow_add add.commute [of m])

lemma wsteps_stopped [simp]: "wsteps api bapi cpu n (Stopped, st) = (Stopped, st)"
  by (induction n) simp_all

lemma drain_steps:
  "\<exists>k>0. wsteps api bapi cpu k (Draining n, st) = start_dispatch bapi (drain_loop api bapi cpu n st)"
proof (induction n arbitrary: st)
  case 0
  show ?case by (intro exI [of _ "Suc 0"]) simp
next
  case (Suc n)
  obtain w' item where nx: "ring_next api (vs_world st) = (w', item)"
    by (cases "ring_next api (vs_world st)")
  show ?case
  proof (cases item)
    case None
    then show ?thesis using nx by (intro exI [of _ "Suc 0"]) simp
  next
    case (Some raw)
    obtain k where "wsteps api bapi cpu k (Draining n, take_record bapi cpu raw (st\<lparr>vs_world := w'\<rparr>))
        = start_dispatch bapi (drain_loop api bapi cpu n (take_record bapi cpu raw (st\<lparr>vs_world := w'\<rparr>)))"
      using Suc.IH by blast
    then have "wsteps api bapi cpu (Suc k) (Draining (Suc n), st)
        = start_dispatch bapi (drain_loop api bapi cpu (Suc n) st)"
      unfolding wsteps_Suc using nx Some by simp
    then show ?thesis by blast
  qed
qed

lemma dispatch_steps:
  "\<exists>k>0. wsteps api bapi cpu k (Dispatching fs, st) =
     (Yielding, st\<lparr>vs_world := fst (dispatch_loop api cpu fs (vs_world st) (vs_metrics st)),
        vs_metrics := snd (dispatch_loop api cpu fs (vs_world st) (vs_metrics st))\<rparr>)"
proof (induction fs arbitrary: st)
  case Nil
  show ?case by (intro exI [of _ "Suc 0"]) simp
next
  case (Cons f fs)
  obtain w' m' ok where d: "try_dispatch (try_send api) (vs_world st) f cpu (vs_metrics st) = (w', m', ok)"
    by (metis prod_cases3)
  let ?st = "st\<lparr>vs_world := w', vs_metrics := if ok then record_ok m' cpu else m'\<rparr>"
  obtain k where "wsteps api bapi cpu k (Dispatching fs, ?st) =
     (Yielding, ?st\<lparr>vs_world := fst (dispatch_loop api cpu fs (vs_world ?st) (vs_metrics ?st)),
        vs_metrics := snd (dispatch_loop api cpu fs (vs_world ?st) (vs_metrics ?st))\<rparr>)"
    using Cons.IH by blast
  then have "wsteps api bapi cpu (Suc k) (Dispatching (f # fs), st) =
     (Yielding, st\<lparr>vs_world := fst (dispatch_loop api cpu (f # fs) (vs_world st) (vs_metrics st)),
        vs_metrics := snd (dispatch_loop api cpu (f # fs) (vs_world st) (vs_metrics st))\<rparr>)"
    unfolding wsteps_Suc using d by simp
  then show ?case by blast
qed

lemma body_steps:
  assumes "load_shutdown api (vs_world st) = (w', False)"
  shows "\<exists>k>0. wsteps api bapi cpu k (AtCheck, st) = (AtCheck, vac_body api bapi cpu (st\<lparr>vs_world := w'\<rparr>))"
proof -
  let ?st0 = "st\<lparr>vs_world := w', vs_batch := batch_clear bapi (vs_batch st)\<rparr>"
  let ?st1 = "drain_loop api bapi cpu BATCH_SIZE ?st0"
  obtain fs b' where b: "batch_drain bapi (vs_batch ?st1) = (fs, b')"
    by (cases "batch_drain bapi (vs_batch ?st1)")
  let ?st2 = "?st1\<lparr>vs_batch := b'\<rparr>"
  obtain k1 where "wsteps api bapi cpu k1 (Draining BATCH_SIZE, ?st0) = (Dispatching fs, ?st2)"
    using drain_steps [of api bapi cpu BATCH_SIZE ?st0] b by (auto simp: start_dispatch_def)
  moreover obtain k2 where "wsteps api bapi cpu k2 (Dispatching fs, ?st2) =
     (Yielding, ?st2\<lparr>vs_world := fst (dispatch_loop api cpu fs (vs_world ?st1) (vs_metrics ?st1)),
        vs_metrics := snd (dispatch_loop api cpu fs (vs_world ?st1) (vs_metrics ?st1))\<rparr>)"
    using dispatch_steps [of api bapi cpu fs ?st2] by auto
  ultimately have "wsteps api bapi cpu (Suc (k1 + (k2 + Suc 0))) (AtCheck, st) =
      (AtCheck, vac_body api bapi cpu (st\<lparr>vs_world := w'\<rparr>))"
    unfolding wsteps_Suc wsteps_add using assms b
    by (simp add: vac_body_def Let_def split: prod.split)
  then show ?thesis by blast
qed

text \<open>Until the loop is back at the check it has not stopped.\<close>

lemma turn_steps:
  "(\<exists>k. wsteps api bapi cpu k (AtCheck, (vac_turn api bapi cpu ^^ n) st) = s) \<Longrightarrow>
   \<forall>i<n. \<not> sees_flag api ((vac_turn api bapi cpu ^^ i) st) \<Longrightarrow>
   \<exists>k. wsteps api bapi cpu k (AtCheck, st) = s"
proof (induction n arbitrary: s)
  case 0
  then show ?case by simp
next
  case (Suc n)
  let ?st = "(vac_turn api bapi cpu ^^ n) st"
  obtain w' where l: "load_shutdown api (vs_world ?st) = (w', False)"
    using Suc.prems(2) by (cases "load_shutdown api (vs_world ?st)") (auto simp: sees_flag_def)
  obtain k1 where "wsteps api bapi cpu k1 (AtCheck, ?st) = (AtCheck, vac_turn api bapi cpu ?st)"
    using body_steps [OF l, of bapi cpu] l by (auto simp: vac_turn_def)
  moreover obtain k2 where "wsteps api bapi cpu k2 (AtCheck, vac_turn api bapi cpu ?st) = s"
    using Suc.prems(1) by auto
  ultimately have "wsteps api bapi cpu (k1 + k2) (AtCheck, ?st) = s"
    by (simp add: wsteps_add)
  then have "\<exists>k. wsteps api bapi cpu k (AtCheck, ?st) = s" by blast
  from Suc.IH [OF this] Suc.prems(2) show ?case by simp
qed

lemma loop_steps:
  assumes "poll_loop api bapi cpu st = Some st'"
  shows "\<exists>k. wsteps api bapi cpu k (AtCheck, st) = (Stopped, st')"
proof -
  define n where "n = (LEAST n. sees_flag api ((vac_turn api bapi cpu ^^ n) st))"
  have flag: "sees_flag api ((vac_turn api bapi cpu ^^ n) st)"
    unfolding n_def using poll_loop_sees [OF assms] by (rule LeastI_ex)
  have before: "\<forall>i<n. \<not> sees_flag api ((vac_turn api bapi cpu ^^ i) st)"
    using not_less_Least unfolding n_def by blast
  let ?st = "(vac_turn api bapi cpu ^^ n) st"
  have "poll_loop api bapi cpu ?st = Some st'"
    using assms poll_loop_after [OF before] by simp
  then have "st' = ?st\<lparr>vs_world := fst (load_shutdown api (vs_world ?st))\<rparr>"
    using flag poll_loop_cases by (metis option.inject)
  then have "wsteps api bapi cpu (Suc 0) (AtCheck, ?st) = (Stopped, st')"
    using flag by (cases "load_shutdown api (vs_world ?st)") (simp add: sees_flag_def)
  then show ?thesis using turn_steps before by blast
qed

text \<open>Conversely, induction on the number of steps, from the start of a turn.\<close>

lemma steps_loop:
  assumes "wsteps api bapi cpu k (AtCheck, st) = (Stopped, st')"
  shows "poll_loop api bapi cpu st = Some st'"
  using assms
proof (induction k arbitrary: st rule: less_induct)
  case (less k)
  obtain w' stop where l: "load_shutdown api (vs_world st) = (w', stop)"
    by (cases "load_shutdown api (vs_world st)")
  show ?case
  proof (cases stop)
    case True
    moreover obtain j where "k = Suc j" using less.prems by (cases k) auto
    ultimately have "wsteps api bapi cpu j (Stopped, st\<lparr>vs_world := w'\<rparr>) = (Stopped, st')"
      using less.prems l by (simp add: wsteps_Suc del: funpow.simps)
    then show ?thesis using l True by (simp add: poll_stop)
  next
    case False
    let ?t = "vac_body api bapi cpu (st\<lparr>vs_world := w'\<rparr>)"
    obtain j where j: "j > 0" "wsteps api bapi cpu j (AtCheck, st) = (AtCheck, ?t)"
      using body_steps l False by metis
    have "j \<le> k"
    proof (rule ccontr)
      assume "\<not> j \<le> k"
      then have "wsteps api bapi cpu (k + (j - k)) (AtCheck, st) = (Stopped, st')"
        using less.prems by (simp only: wsteps_add wsteps_stopped)
      then show False using j(2) \<open>\<not> j \<le> k\<close> by simp
    qed
    then have "wsteps api bapi cpu (k - j) (AtCheck, ?t) = (Stopped, st')"
      using less.prems j(2) wsteps_add [of j "k - j" api bapi cpu "(AtCheck, st)"] by simp
    then have "poll_loop api bapi cpu ?t = Some st'"
      using less.IH [of "k - j"] j(1) \<open>j \<le> k\<close> by simp
    then show ?thesis using l False by (simp add: poll_go)
  qed
qed

text \<open>
  The small steps are the loop: for every behaviour of the world, the poll loop returns a
  state exactly when some number of steps from the check stops with that state; so it does
  not return exactly when the steps never stop.
\<close>
theorem small_steps_are_the_loop:
  "poll_loop api bapi cpu st = Some st' \<longleftrightarrow>
     (\<exists>k. wsteps api bapi cpu k (AtCheck, st) = (Stopped, st'))"
  using loop_steps steps_loop by metis

section \<open>Other threads between the steps\<close>

text \<open>
  What the rest of the system may do between two steps of the worker: append to the ring,
  empty the channel, raise the flag, count for other CPUs. It reads nothing from the worker's
  end of the ring, sends nothing on its channel and leaves the counters of its CPU alone.
\<close>

definition leaves_worker :: "('w \<Rightarrow> u8 list list) \<Rightarrow> ('w \<Rightarrow> signal_frame list) \<Rightarrow> ('w \<Rightarrow> 'w \<Rightarrow> bool) \<Rightarrow> bool" where
  "leaves_worker taken sent rely \<longleftrightarrow> (\<forall>w w'. rely w w' \<longrightarrow> taken w' = taken w \<and> sent w' = sent w)"

definition keeps_flag :: "('w \<Rightarrow> bool) \<Rightarrow> ('w \<Rightarrow> 'w \<Rightarrow> bool) \<Rightarrow> bool" where
  "keeps_flag flag_up rely \<longleftrightarrow> (\<forall>w w'. rely w w' \<longrightarrow> flag_up w \<longrightarrow> flag_up w')"

lemma leaves_workerD: "leaves_worker taken sent rely \<Longrightarrow> rely w w' \<Longrightarrow> taken w' = taken w \<and> sent w' = sent w"
  by (simp add: leaves_worker_def)

lemma keeps_flagD: "keeps_flag flag_up rely \<Longrightarrow> rely w w' \<Longrightarrow> flag_up w \<Longrightarrow> flag_up w'"
  by (simp add: keeps_flag_def)

definition own_count :: "metrics \<Rightarrow> metrics \<Rightarrow> nat \<Rightarrow> nat \<Rightarrow> nat \<Rightarrow> nat \<Rightarrow> bool" where
  "own_count m m' cpu a d f \<longleftrightarrow> metrics_wf m' \<and> ok_at m' cpu = ok_at m cpu + of_nat a \<and>
     drop_at m' cpu = drop_at m cpu + of_nat d \<and> full_at m' cpu = full_at m cpu + of_nat f"

lemma own_count_trans:
  "own_count m m1 cpu a d f \<Longrightarrow> own_count m1 m2 cpu a' d' f' \<Longrightarrow>
   own_count m m2 cpu (a + a') (d + d') (f + f')"
  by (simp add: own_count_def)

lemma counted_own: "counted m m' cpu a d f \<Longrightarrow> cpu < NCPU \<Longrightarrow> own_count m m' cpu a d f"
  by (auto simp: counted_def own_count_def)

inductive interleaved ::
  "'w vac_api \<Rightarrow> 'b batch_api \<Rightarrow> nat \<Rightarrow> ('w \<Rightarrow> 'w \<Rightarrow> bool) \<Rightarrow> nat \<Rightarrow>
   pc \<times> ('w, 'b) vac_state \<Rightarrow> pc \<times> ('w, 'b) vac_state \<Rightarrow> bool"
  for api bapi cpu rely where
  start: "interleaved api bapi cpu rely 0 s s"
| work: "interleaved api bapi cpu rely n s s' \<Longrightarrow>
    interleaved api bapi cpu rely (Suc n) s (wstep api bapi cpu s')"
| others: "interleaved api bapi cpu rely n s (p, st) \<Longrightarrow> rely (vs_world st) w' \<Longrightarrow>
    own_count (vs_metrics st) m' cpu 0 0 0 \<Longrightarrow>
    interleaved api bapi cpu rely n s (p, st\<lparr>vs_world := w', vs_metrics := m'\<rparr>)"

inductive_cases interleavedE: "interleaved api bapi cpu rely n s s'"

lemma wsteps_interleaved: "interleaved api bapi cpu rely n s (wsteps api bapi cpu n s)"
  by (induction n) (auto intro: interleaved.intros)

text \<open>The frames the worker has accepted and not yet offered to the channel.\<close>

fun in_flight :: "('b \<Rightarrow> signal_frame list) \<Rightarrow> pc \<times> ('w, 'b) vac_state \<Rightarrow> signal_frame list" where
  "in_flight contents (Draining n, st) = contents (vs_batch st)"
| "in_flight contents (Dispatching fs, st) = fs"
| "in_flight contents (_, st) = []"

definition accounts ::
  "('w \<Rightarrow> u8 list list) \<Rightarrow> ('w \<Rightarrow> signal_frame list) \<Rightarrow> ('b \<Rightarrow> signal_frame list) \<Rightarrow> nat \<Rightarrow>
   ('w, 'b) vac_state \<Rightarrow> pc \<times> ('w, 'b) vac_state \<Rightarrow> u8 list list \<Rightarrow> signal_frame list \<Rightarrow>
   (try_send_error + unit) list \<Rightarrow> bool" where
  "accounts taken sent contents cpu st0 s rs offered outs \<longleftrightarrow>
     taken (vs_world (snd s)) = taken (vs_world st0) @ rs \<and>
     accepted (vs_last st0) rs = offered @ in_flight contents s \<and>
     length outs = length offered \<and>
     sent (vs_world (snd s)) = sent (vs_world st0) @ delivered offered outs \<and>
     vs_last (snd s) = final_ts (vs_last st0) rs \<and>
     own_count (vs_metrics st0) (vs_metrics (snd s)) cpu (count_list outs (Inr ()))
       (length rs - length (accepted (vs_last st0) rs)) (count_list outs (Inl Full))"

lemma accounts_move:
  assumes "accounts taken sent contents cpu st0 s rs offered outs"
    and e: "taken (vs_world (snd s')) = taken (vs_world (snd s))"
      "sent (vs_world (snd s')) = sent (vs_world (snd s))" "in_flight contents s' = in_flight contents s"
      "vs_last (snd s') = vs_last (snd s)" "vs_metrics (snd s') = vs_metrics (snd s)"
  shows "accounts taken sent contents cpu st0 s' rs offered outs"
  using assms(1) unfolding accounts_def e .

definition batch_room :: "('b \<Rightarrow> signal_frame list) \<Rightarrow> pc \<times> ('w, 'b) vac_state \<Rightarrow> bool" where
  "batch_room contents s \<longleftrightarrow>
     (case fst s of
        Draining n \<Rightarrow> length (contents (vs_batch (snd s))) + n \<le> BATCH_SIZE
      | Dispatching fs \<Rightarrow> length fs \<le> BATCH_SIZE
      | _ \<Rightarrow> True)"

text \<open>A result the channel gives in some world that satisfies \<open>J\<close>.\<close>

definition answers :: "'w vac_api \<Rightarrow> ('w \<Rightarrow> bool) \<Rightarrow> try_send_error + unit \<Rightarrow> bool" where
  "answers api J r \<longleftrightarrow> (\<exists>w f w'. J w \<and> try_send api w f = (w', r))"

lemma batch_room_env [simp]:
  "batch_room contents (p, st\<lparr>vs_world := w', vs_metrics := m'\<rparr>) \<longleftrightarrow> batch_room contents (p, st)"
  by (cases p) (simp_all add: batch_room_def)

context vacuum_env
begin

lemma start_dispatch_shape:
  "start_dispatch bapi st = (Dispatching (contents (vs_batch st)), st\<lparr>vs_batch := snd (batch_drain bapi (vs_batch st))\<rparr>)"
  using drain [of "vs_batch st"] by (cases "batch_drain bapi (vs_batch st)") (simp add: start_dispatch_def)

lemma room_step:
  assumes "batch_room contents s" "metrics_wf (vs_metrics (snd s))" "cpu < NCPU"
  shows "batch_room contents (wstep api bapi cpu s)"
proof (cases s rule: pc_state_cases)
  case (check st)
  then show ?thesis
    by (auto simp: batch_room_def contents_clear split: prod.splits)
next
  case (drain n st)
  obtain w' item where nx: "ring_next api (vs_world st) = (w', item)" by (cases "ring_next api (vs_world st)")
  show ?thesis
  proof (cases item)
    case None
    then show ?thesis using drain nx assms(1) by (simp add: batch_room_def start_dispatch_shape)
  next
    case (Some raw)
    have "length (contents (vs_batch st)) < BATCH_SIZE" using assms(1) drain by (auto simp: batch_room_def)
    then have "contents (vs_batch (take_record bapi cpu raw (st\<lparr>vs_world := w'\<rparr>)))
        = contents (vs_batch st) @ accepted (vs_last st) [raw]"
      using take_record_spec(2) [of "st\<lparr>vs_world := w'\<rparr>" cpu raw] assms(2,3) drain by simp
    then show ?thesis
      using assms(1) drain nx Some length_accepted [of "vs_last st" "[raw]"] by (simp add: batch_room_def)
  qed
qed (use assms(1) in \<open>auto simp: batch_room_def start_dispatch_shape split: prod.splits\<close>)

lemma accounts_take:
  assumes acc: "accounts taken sent contents cpu st0 (Draining (Suc n), st) rs offered outs"
    and room: "batch_room contents (Draining (Suc n), st)" and cpu: "cpu < NCPU"
    and nx: "ring_next api (vs_world st) = (w', Some raw)"
  shows "accounts taken sent contents cpu st0
    (Draining n, take_record bapi cpu raw (st\<lparr>vs_world := w'\<rparr>)) (rs @ [raw]) offered outs"
proof -
  let ?st = "st\<lparr>vs_world := w'\<rparr>"
  let ?st' = "take_record bapi cpu raw ?st"
  have w': "taken w' = taken (vs_world st) @ [raw]" "sent w' = sent (vs_world st)"
    using next_some nx by simp_all
  have last: "vs_last st = final_ts (vs_last st0) rs"
    and m: "own_count (vs_metrics st0) (vs_metrics st) cpu (count_list outs (Inr ()))
      (length rs - length (accepted (vs_last st0) rs)) (count_list outs (Inl Full))"
    using acc unfolding accounts_def snd_conv by blast+
  have fit: "length (contents (vs_batch ?st)) < BATCH_SIZE" "metrics_wf (vs_metrics ?st)"
    using room m by (auto simp: batch_room_def own_count_def)
  have t: "vs_world ?st' = w'" "contents (vs_batch ?st') = contents (vs_batch st) @ accepted (vs_last st) [raw]"
    "vs_last ?st' = final_ts (vs_last st) [raw]"
    "counted (vs_metrics st) (vs_metrics ?st') cpu 0 (1 - length (accepted (vs_last st) [raw])) 0"
    using take_record_spec [OF fit cpu, of raw] by (simp_all del: accepted.simps final_ts.simps)
  have "length (accepted (vs_last st) [raw]) \<le> 1" using length_accepted [of "vs_last st" "[raw]"] by simp
  then have len: "length rs - length (accepted (vs_last st0) rs) + (1 - length (accepted (vs_last st) [raw]))
      = length (rs @ [raw]) - length (accepted (vs_last st0) (rs @ [raw]))"
    using length_accepted [of "vs_last st0" rs] by (simp add: accepted_append last)
  have "own_count (vs_metrics st0) (vs_metrics ?st') cpu (count_list outs (Inr ()))
      (length (rs @ [raw]) - length (accepted (vs_last st0) (rs @ [raw]))) (count_list outs (Inl Full))"
    using own_count_trans [OF m counted_own [OF t(4) cpu]] by (simp only: len add_0_right)
  then show ?thesis
    using acc w' t(1-3) last unfolding accounts_def
    by (simp add: accepted_append final_ts_append del: accepted.simps final_ts.simps)
qed

lemma accounts_offer:
  assumes acc: "accounts taken sent contents cpu st0 (Dispatching (f # fs), st) rs offered outs"
    and cpu: "cpu < NCPU"
  shows "\<exists>r w1. try_send api (vs_world st) f = (w1, r) \<and>
    accounts taken sent contents cpu st0 (wstep api bapi cpu (Dispatching (f # fs), st)) rs
      (offered @ [f]) (outs @ [r])"
proof -
  obtain w1 m1 ok where d: "try_dispatch (try_send api) (vs_world st) f cpu (vs_metrics st) = (w1, m1, ok)"
    by (metis prod_cases3)
  have m: "own_count (vs_metrics st0) (vs_metrics st) cpu (count_list outs (Inr ()))
        (length rs - length (accepted (vs_last st0) rs)) (count_list outs (Inl Full))"
    using acc unfolding accounts_def snd_conv by blast
  then have "metrics_wf (vs_metrics st)" by (simp add: own_count_def)
  from try_dispatch_counted [OF d this cpu] obtain r where s: "try_send api (vs_world st) f = (w1, r)"
    and r: "taken w1 = taken (vs_world st)" "sent w1 = sent (vs_world st) @ delivered [f] [r]"
    "counted (vs_metrics st) (if ok then record_ok m1 cpu else m1) cpu (count_list [r] (Inr ())) 0
      (count_list [r] (Inl Full))"
    by blast
  have "own_count (vs_metrics st0) (if ok then record_ok m1 cpu else m1) cpu (count_list (outs @ [r]) (Inr ()))
      (length rs - length (accepted (vs_last st0) rs)) (count_list (outs @ [r]) (Inl Full))"
    using own_count_trans [OF m counted_own [OF r(3) cpu]] by simp
  moreover have "delivered (offered @ [f]) (outs @ [r]) = delivered offered outs @ delivered [f] [r]"
    using acc by (intro delivered_append) (simp add: accounts_def)
  ultimately show ?thesis
    using d s acc r(1,2) by (intro exI [of _ r] exI [of _ w1]) (simp add: accounts_def)
qed

lemma accounts_step:
  assumes acc: "accounts taken sent contents cpu st0 s rs offered outs"
    and room: "batch_room contents s" and cpu: "cpu < NCPU"
    and J: "J (vs_world (snd s))" "\<forall>r\<in>set outs. answers api J r"
  shows "\<exists>rs' offered' outs'. accounts taken sent contents cpu st0 (wstep api bapi cpu s) rs' offered' outs'
    \<and> (\<forall>r\<in>set outs'. answers api J r)"
proof (cases "\<exists>f fs st. s = (Dispatching (f # fs), st)")
  case True
  then obtain f fs st where s: "s = (Dispatching (f # fs), st)" by blast
  from accounts_offer [OF acc [unfolded s] cpu] obtain r w1 where
    "try_send api (vs_world st) f = (w1, r)"
    "accounts taken sent contents cpu st0 (wstep api bapi cpu s) rs (offered @ [f]) (outs @ [r])"
    using s by blast
  moreover from this(1) have "answers api J r" using J(1) s by (auto simp: answers_def)
  ultimately show ?thesis using J(2)
    by (intro exI [of _ rs] exI [of _ "offered @ [f]"] exI [of _ "outs @ [r]"]) simp
next
  case no_offer: False
  have "\<exists>rs'. accounts taken sent contents cpu st0 (wstep api bapi cpu s) rs' offered outs"
  proof (cases s rule: pc_state_cases)
    case (check st)
    obtain w' stop where l: "load_shutdown api (vs_world st) = (w', stop)" by (cases "load_shutdown api (vs_world st)")
    show ?thesis
      using check l shutdown_frame [OF l]
      by (intro exI [of _ rs] accounts_move [OF acc]) (simp_all add: contents_clear)
  next
    case (drained st)
    then show ?thesis by (intro exI [of _ rs] accounts_move [OF acc]) (simp_all add: start_dispatch_shape)
  next
    case (drain n st)
    obtain w' item where nx: "ring_next api (vs_world st) = (w', item)" by (cases "ring_next api (vs_world st)")
    show ?thesis
    proof (cases item)
      case None
      then show ?thesis
        using drain nx next_none [of "vs_world st" w']
        by (intro exI [of _ rs] accounts_move [OF acc]) (simp_all add: start_dispatch_shape)
    next
      case (Some raw)
      then show ?thesis
        using accounts_take [OF acc [unfolded drain] room [unfolded drain] cpu] drain nx by auto
    qed
  next
    case (yield st)
    then show ?thesis using yield_frame [of "vs_world st"] by (intro exI [of _ rs] accounts_move [OF acc]) simp_all
  next
    case (dispatched st)
    then show ?thesis by (intro exI [of _ rs] accounts_move [OF acc]) simp_all
  next
    case (stopped st)
    then show ?thesis using acc by auto
  qed (use no_offer in blast)
  then show ?thesis using J(2) by blast
qed

lemma interleaved_accounts_inv:
  assumes "interleaved api bapi cpu rely n (AtCheck, st0) s" and "metrics_wf (vs_metrics st0)" "cpu < NCPU"
    and rely: "leaves_worker taken sent rely"
    and J: "J (vs_world st0)" "\<And>w w'. J w \<Longrightarrow> rely w w' \<Longrightarrow> J w'"
      "\<And>s. J (vs_world (snd s)) \<Longrightarrow> J (vs_world (snd (wstep api bapi cpu s)))"
  shows "J (vs_world (snd s)) \<and> batch_room contents s
    \<and> (\<exists>rs offered outs. accounts taken sent contents cpu st0 s rs offered outs \<and> (\<forall>r\<in>set outs. answers api J r))"
  using assms(1)
proof (induction n "(AtCheck, st0)" s rule: interleaved.induct)
  case start
  have "accounts taken sent contents cpu st0 (AtCheck, st0) [] [] []"
    using assms(2) by (simp add: accounts_def own_count_def)
  then show ?case using J(1) by (auto simp: batch_room_def intro!: exI [of _ "[]"])
next
  case (work n s)
  then obtain rs offered outs where a: "accounts taken sent contents cpu st0 s rs offered outs"
    "\<forall>r\<in>set outs. answers api J r" and s: "J (vs_world (snd s))" "batch_room contents s" by blast
  then have "metrics_wf (vs_metrics (snd s))" by (simp add: accounts_def own_count_def)
  then show ?case
    using accounts_step [OF a(1) s(2) assms(3) s(1) a(2)] room_step [OF s(2) _ assms(3)] J(3) [OF s(1)]
    by blast
next
  case (others n p st w' m')
  then obtain rs offered outs where a: "accounts taken sent contents cpu st0 (p, st) rs offered outs"
    "\<forall>r\<in>set outs. answers api J r" by blast
  have "in_flight contents (p, st\<lparr>vs_world := w', vs_metrics := m'\<rparr>) = in_flight contents (p, st)"
    by (cases p) simp_all
  then have "accounts taken sent contents cpu st0 (p, st\<lparr>vs_world := w', vs_metrics := m'\<rparr>) rs offered outs"
    using a(1) leaves_workerD [OF rely others(3)] own_count_trans [OF _ others(4)]
    by (fastforce simp: accounts_def)
  moreover have "batch_room contents (p, st\<lparr>vs_world := w', vs_metrics := m'\<rparr>)"
    using others(2) by simp
  moreover have "J w'" using others(2,3) J(2) by auto
  ultimately show ?case using a(2) by auto
qed

lemma interleaved_accounts:
  assumes "interleaved api bapi cpu rely n (AtCheck, st0) s" and "metrics_wf (vs_metrics st0)" "cpu < NCPU"
    and "leaves_worker taken sent rely"
  shows "batch_room contents s \<and> (\<exists>rs offered outs. accounts taken sent contents cpu st0 s rs offered outs)"
  using interleaved_accounts_inv [OF assms, where J = "\<lambda>_. True"] by blast

end

section \<open>Conservation at every moment\<close>

text \<open>
  C10. At every moment of every interleaving with other threads, under the contract, the
  records the worker has read are all accounted for: the accepted ones were offered to the
  channel in order, except those still in the batch or in the dispatch loop; and the number read is the sum of the frames
  sent, in flight, counted as dropped, counted as refused, and lost to a disconnected channel.
  When the worker has stopped nothing is in flight.
\<close>
theorem records_accounted_always:
  assumes env: "vacuum_env api sent taken bapi contents" and "cpu < NCPU" "metrics_wf (vs_metrics st0)"
    and rely: "leaves_worker taken sent rely"
    and run: "interleaved api bapi cpu rely n (AtCheck, st0) (p, st)"
  shows "\<exists>rs offered outs.
    taken (vs_world st) = taken (vs_world st0) @ rs
    \<and> accepted (vs_last st0) rs = offered @ in_flight contents (p, st)
    \<and> sent (vs_world st) = sent (vs_world st0) @ delivered offered outs
    \<and> own_count (vs_metrics st0) (vs_metrics st) cpu (length (delivered offered outs))
        (length rs - length (accepted (vs_last st0) rs)) (count_list outs (Inl Full))
    \<and> length rs = length (delivered offered outs) + length (in_flight contents (p, st))
        + (length rs - length (accepted (vs_last st0) rs)) + count_list outs (Inl Full)
        + count_list outs (Inl Disconnected)
    \<and> (p = Stopped \<longrightarrow> in_flight contents (p, st) = [])"
proof -
  obtain rs offered outs where a: "accounts taken sent contents cpu st0 (p, st) rs offered outs"
    using vacuum_env.interleaved_accounts [OF env run assms(3,2) rely] by blast
  have d: "length (delivered offered outs) = count_list outs (Inr ())"
    using a by (intro length_delivered) (simp add: accounts_def)
  have "length (accepted (vs_last st0) rs) = length offered + length (in_flight contents (p, st))"
    "length outs = length offered"
    using a by (simp_all add: accounts_def)
  then have "length rs = length (delivered offered outs) + length (in_flight contents (p, st))
        + (length rs - length (accepted (vs_last st0) rs)) + count_list outs (Inl Full)
        + count_list outs (Inl Disconnected)"
    using count_outcomes [of outs] length_accepted [of "vs_last st0" rs] d by linarith
  then show ?thesis
    using a d by (intro exI [of _ rs] exI [of _ offered] exI [of _ outs]) (auto simp: accounts_def)
qed

text \<open>In the reference world other threads may append to the ring, empty the channel, raise the flag.\<close>

definition rw_rely :: "rworld \<Rightarrow> rworld \<Rightarrow> bool" where
  "rw_rely w w' \<longleftrightarrow> rw_taken w' = rw_taken w \<and> rw_sent w' = rw_sent w \<and> (rw_polls w = 0 \<longrightarrow> rw_polls w' = 0)"

lemma rw_rely: "leaves_worker rw_taken rw_sent rw_rely" "keeps_flag (\<lambda>w. rw_polls w = 0) rw_rely"
  by (simp_all add: leaves_worker_def keeps_flag_def rw_rely_def)

definition two_records :: "(rworld, signal_frame list) vac_state" where
  "two_records = \<lparr>vs_world = rworld_of [stamped_rec 5, stamped_rec 3] 1, vs_metrics = metrics_new,
     vs_batch = [], vs_last = 0\<rparr>"

lemma wstep_draining:
  "0 < n \<Longrightarrow> wstep api bapi cpu (Draining n, st) =
     (case ring_next api (vs_world st) of
        (w', None) \<Rightarrow> start_dispatch bapi (st\<lparr>vs_world := w'\<rparr>)
      | (w', Some raw) \<Rightarrow> (Draining (n - 1), take_record bapi cpu raw (st\<lparr>vs_world := w'\<rparr>)))"
  by (cases n) simp_all

lemma two_records_run:
  "\<exists>st. interleaved rw_api vec_api 2 rw_rely 3 (AtCheck, two_records) (Draining 254, st)
     \<and> vs_batch st = [stamped 5] \<and> rw_taken (vs_world st) = [stamped_rec 5, stamped_rec 3]
     \<and> rw_polls (vs_world st) = 0"
proof -
  have "wsteps rw_api vec_api 2 (Suc (Suc (Suc 0))) (AtCheck, two_records) =
      (Draining 254, \<lparr>vs_world = (rworld_of [] 0)\<lparr>rw_taken := [stamped_rec 5, stamped_rec 3]\<rparr>,
         vs_metrics = record_drop metrics_new 2, vs_batch = [stamped 5], vs_last = 5\<rparr>)"
    unfolding wsteps_Suc
    by (simp add: two_records_def rworld_of_def BATCH_SIZE_def take_one good_def wstep_draining)
  then have "interleaved rw_api vec_api 2 rw_rely (Suc (Suc (Suc 0))) (AtCheck, two_records)
      (Draining 254, \<lparr>vs_world = (rworld_of [] 0)\<lparr>rw_taken := [stamped_rec 5, stamped_rec 3]\<rparr>,
         vs_metrics = record_drop metrics_new 2, vs_batch = [stamped 5], vs_last = 5\<rparr>)"
    using wsteps_interleaved by metis
  then show ?thesis
    unfolding numeral_3_eq_3 by (intro exI conjI) (assumption, simp_all add: rworld_of_def)
qed

theorem records_accounted_always_witness:
  "\<exists>st offered. interleaved rw_api vec_api 2 rw_rely 3 (AtCheck, two_records) (Draining 254, st)
     \<and> accepted 0 [stamped_rec 5, stamped_rec 3] = offered @ [stamped 5]"
proof -
  obtain st where r: "interleaved rw_api vec_api 2 rw_rely 3 (AtCheck, two_records) (Draining 254, st)"
    "vs_batch st = [stamped 5]" "rw_taken (vs_world st) = [stamped_rec 5, stamped_rec 3]"
    using two_records_run by blast
  have "2 < NCPU" "metrics_wf (vs_metrics two_records)"
    by (simp_all add: NCPU_def two_records_def)
  from records_accounted_always [OF ref_env this rw_rely(1) r(1)] obtain rs offered where
    "rw_taken (vs_world st) = rw_taken (vs_world two_records) @ rs"
    "accepted (vs_last two_records) rs = offered @ in_flight id (Draining 254, st)"
    by blast
  then have "accepted 0 [stamped_rec 5, stamped_rec 3] = offered @ [stamped 5]"
    using r(2,3) by (simp add: two_records_def rworld_of_def del: accepted.simps)
  with r(1) show ?thesis by blast
qed

section \<open>Shutdown in bounded time\<close>

text \<open>The steps left when the flag is up.\<close>

fun steps_left :: "('b \<Rightarrow> signal_frame list) \<Rightarrow> pc \<times> ('w, 'b) vac_state \<Rightarrow> nat" where
  "steps_left contents (Draining n, st) = 4 + length (contents (vs_batch st)) + 2 * n"
| "steps_left contents (Dispatching fs, st) = 3 + length fs"
| "steps_left contents (Yielding, st) = 2"
| "steps_left contents (AtCheck, st) = 1"
| "steps_left contents (Stopped, st) = 0"

text \<open>
  The flag stays up once it is raised: only \<^verbatim>\<open>store(true)\<close> writes it, and no operation of
  the worker does.
\<close>

locale vacuum_flag = vacuum_env api sent taken bapi contents
  for api :: "'w vac_api" and sent taken and bapi :: "'b batch_api" and contents +
  fixes flag_up :: "'w \<Rightarrow> bool"
  assumes flag_read: "flag_up w \<Longrightarrow> load_shutdown api w = (w', b) \<Longrightarrow> b \<and> flag_up w'"
    and flag_next: "flag_up w \<Longrightarrow> ring_next api w = (w', item) \<Longrightarrow> flag_up w'"
    and flag_send: "flag_up w \<Longrightarrow> try_send api w f = (w', r) \<Longrightarrow> flag_up w'"
    and flag_yield: "flag_up w \<Longrightarrow> flag_up (yield_now api w)"
begin

lemma steps_left_step:
  assumes up: "flag_up (vs_world (snd s))" and room: "batch_room contents s"
    and wf: "metrics_wf (vs_metrics (snd s))" and cpu: "cpu < NCPU"
  shows "flag_up (vs_world (snd (wstep api bapi cpu s)))
    \<and> steps_left contents (wstep api bapi cpu s) \<le> steps_left contents s - 1"
proof (cases s rule: pc_state_cases)
  case (check st)
  obtain w' b where l: "load_shutdown api (vs_world st) = (w', b)" by (cases "load_shutdown api (vs_world st)")
  then show ?thesis using check flag_read [OF _ l] up by simp
next
  case (drained st)
  then show ?thesis using up by (simp add: start_dispatch_shape)
next
  case (drain n st)
  obtain w' item where nx: "ring_next api (vs_world st) = (w', item)" by (cases "ring_next api (vs_world st)")
  have up': "flag_up w'" using flag_next [OF _ nx] up drain by simp
  show ?thesis
  proof (cases item)
    case None
    then show ?thesis using drain nx up' by (simp add: start_dispatch_shape)
  next
    case (Some raw)
    let ?st = "st\<lparr>vs_world := w'\<rparr>"
    have "length (contents (vs_batch ?st)) < BATCH_SIZE" "metrics_wf (vs_metrics ?st)"
      using room wf drain by (auto simp: batch_room_def)
    note t = take_record_spec(1,2) [OF this cpu, of raw]
    show ?thesis
      using drain nx Some up' t length_accepted [of "vs_last st" "[raw]"] by simp
  qed
next
  case (dispatched st)
  then show ?thesis using up by simp
next
  case (dispatch f fs st)
  obtain w1 m1 ok where d: "try_dispatch (try_send api) (vs_world st) f cpu (vs_metrics st) = (w1, m1, ok)"
    by (metis prod_cases3)
  then have "\<exists>r. try_send api (vs_world st) f = (w1, r)"
    by (cases "try_send api (vs_world st) f")
      (auto simp: try_dispatch_def split: sum.splits try_send_error.splits)
  then have "flag_up w1" using flag_send up dispatch by auto
  then show ?thesis using dispatch d by simp
next
  case (yield st)
  then show ?thesis using up flag_yield by simp
next
  case (stopped st)
  then show ?thesis using up by simp
qed

end


text \<open>Records the worker may still read when the flag is up: the rest of its batch.\<close>

fun reads_left :: "pc \<Rightarrow> nat" where
  "reads_left (Draining n) = n"
| "reads_left _ = 0"

context vacuum_env
begin

lemma wstep_wf:
  assumes "batch_room contents s" "metrics_wf (vs_metrics (snd s))" "cpu < NCPU"
  shows "metrics_wf (vs_metrics (snd (wstep api bapi cpu s)))"
proof (cases s rule: pc_state_cases)
  case (drain n st)
  obtain w' item where nx: "ring_next api (vs_world st) = (w', item)" by (cases "ring_next api (vs_world st)")
  have fit: "length (contents (vs_batch (st\<lparr>vs_world := w'\<rparr>))) < BATCH_SIZE"
    "metrics_wf (vs_metrics (st\<lparr>vs_world := w'\<rparr>))"
    using assms drain by (auto simp: batch_room_def)
  show ?thesis
    using drain nx assms(2) counted_wf [OF take_record_spec(4) [OF fit assms(3)]]
    by (cases item) (simp_all add: start_dispatch_shape)
next
  case (dispatch f fs st)
  obtain w1 m1 ok where d: "try_dispatch (try_send api) (vs_world st) f cpu (vs_metrics st) = (w1, m1, ok)"
    by (metis prod_cases3)
  have "metrics_wf (vs_metrics st)" using assms(2) dispatch by simp
  from try_dispatch_counted [OF d this assms(3)] show ?thesis
    using dispatch d by (auto dest: counted_wf)
qed (use assms(2) in \<open>auto simp: start_dispatch_shape split: prod.splits\<close>)

lemma wstep_reads:
  assumes "batch_room contents s" "metrics_wf (vs_metrics (snd s))" "cpu < NCPU"
    and "fst s = AtCheck \<Longrightarrow> fst (wstep api bapi cpu s) = Stopped"
  shows "length (taken (vs_world (snd (wstep api bapi cpu s)))) + reads_left (fst (wstep api bapi cpu s))
    \<le> length (taken (vs_world (snd s))) + reads_left (fst s)"
proof (cases s rule: pc_state_cases)
  case (check st)
  obtain w' b where l: "load_shutdown api (vs_world st) = (w', b)" by (cases "load_shutdown api (vs_world st)")
  have b using assms(4) check l by (auto split: if_splits)
  then show ?thesis using check l shutdown_frame [OF l] by simp
next
  case (drain n st)
  obtain w' item where nx: "ring_next api (vs_world st) = (w', item)" by (cases "ring_next api (vs_world st)")
  have fit: "length (contents (vs_batch (st\<lparr>vs_world := w'\<rparr>))) < BATCH_SIZE"
    "metrics_wf (vs_metrics (st\<lparr>vs_world := w'\<rparr>))"
    using assms drain by (auto simp: batch_room_def)
  show ?thesis
    using drain nx next_none [of "vs_world st" w'] next_some [of "vs_world st" w']
      take_record_spec(1) [OF fit assms(3)]
    by (cases item) (auto simp: start_dispatch_shape)
next
  case (dispatch f fs st)
  obtain w1 m1 ok where d: "try_dispatch (try_send api) (vs_world st) f cpu (vs_metrics st) = (w1, m1, ok)"
    by (metis prod_cases3)
  have "metrics_wf (vs_metrics st)" using assms(2) dispatch by simp
  from try_dispatch_counted [OF d this assms(3)] show ?thesis
    using dispatch d by auto
qed (use yield_frame in \<open>auto simp: start_dispatch_shape\<close>)

end

context vacuum_flag
begin

lemma interleaved_steps_left:
  assumes "interleaved api bapi cpu rely n s s'" and "flag_up (vs_world (snd s))"
    and "batch_room contents s" "metrics_wf (vs_metrics (snd s))" and cpu: "cpu < NCPU"
    and rely: "leaves_worker taken sent rely"
    and stays: "keeps_flag flag_up rely"
  shows "flag_up (vs_world (snd s')) \<and> batch_room contents s' \<and> metrics_wf (vs_metrics (snd s'))
    \<and> steps_left contents s' \<le> steps_left contents s - n
    \<and> length (taken (vs_world (snd s'))) + reads_left (fst s')
        \<le> length (taken (vs_world (snd s))) + reads_left (fst s)"
  using assms(1-4)
proof (induction rule: interleaved.induct)
  case (start s)
  then show ?case by simp
next
  case (work n s s')
  then have IH: "flag_up (vs_world (snd s'))" "batch_room contents s'" "metrics_wf (vs_metrics (snd s'))"
    "steps_left contents s' \<le> steps_left contents s - n"
    "length (taken (vs_world (snd s'))) + reads_left (fst s')
        \<le> length (taken (vs_world (snd s))) + reads_left (fst s)" by blast+
  let ?s = "wstep api bapi cpu s'"
  have "fst ?s = Stopped" if check: "fst s' = AtCheck"
  proof -
    obtain st where st: "s' = (AtCheck, st)" using check by (cases s') auto
    obtain w' b where l: "load_shutdown api (vs_world st) = (w', b)" by (cases "load_shutdown api (vs_world st)")
    then show ?thesis using flag_read [OF _ l] IH(1) st by simp
  qed
  note reads = wstep_reads [OF IH(2,3) cpu this]
  have step: "flag_up (vs_world (snd ?s))" "steps_left contents ?s \<le> steps_left contents s' - 1"
    using steps_left_step [OF IH(1-3) cpu] by blast+
  have "steps_left contents ?s \<le> steps_left contents s - Suc n" using step(2) IH(4) by linarith
  then show ?case
    using step(1) room_step [OF IH(2,3) cpu] wstep_wf [OF IH(2,3) cpu] reads IH(5) by linarith
next
  case (others n s p st w' m')
  have "steps_left contents (p, st\<lparr>vs_world := w', vs_metrics := m'\<rparr>) = steps_left contents (p, st)"
    by (cases p) simp_all
  then show ?case
    using others leaves_workerD [OF rely others(2)] keeps_flagD [OF stays others(2)] by (simp add: own_count_def)
qed

lemma stops:
  assumes "metrics_wf (vs_metrics st0)" and cpu: "cpu < NCPU"
    and rely: "leaves_worker taken sent rely"
      "keeps_flag flag_up rely"
    and before: "interleaved api bapi cpu rely m (AtCheck, st0) s1" "flag_up (vs_world (snd s1))"
    and after: "interleaved api bapi cpu rely n s1 s2" "516 \<le> n"
  shows "fst s2 = Stopped \<and> length (taken (vs_world (snd s2))) \<le> length (taken (vs_world (snd s1))) + 256"
proof -
  have acc: "batch_room contents s1" "metrics_wf (vs_metrics (snd s1))"
    using interleaved_accounts [OF before(1) assms(1) cpu rely(1)]
    by (auto simp: accounts_def own_count_def)
  have "steps_left contents s1 \<le> 516 \<and> reads_left (fst s1) \<le> 256"
    using acc(1)
    by (cases s1 rule: pc_state_cases) (auto simp: batch_room_def BATCH_SIZE_def)
  moreover note interleaved_steps_left [OF after(1) before(2) acc cpu rely]
  ultimately have "steps_left contents s2 = 0"
    "length (taken (vs_world (snd s2))) \<le> length (taken (vs_world (snd s1))) + 256"
    using after(2) by linarith+
  moreover have "fst s2 = Stopped" if "steps_left contents s2 = 0"
    using that by (cases s2 rule: pc_state_cases) auto
  ultimately show ?thesis by blast
qed

end


lemma ref_flag: "vacuum_flag rw_api rw_sent rw_taken vec_api id (\<lambda>w. rw_polls w = 0)"
  by unfold_locales (auto split: list.splits prod.splits)

interpretation rf: vacuum_flag rw_api rw_sent rw_taken vec_api id "\<lambda>w. rw_polls w = 0"
  by (rule ref_flag)

text \<open>
  C11. Shutdown takes bounded time. Once the flag is up, whatever point of its loop the worker
  has reached and however the other threads interleave, at most 516 of its own steps later it
  has stopped: it finishes the batch it is in and starts no other. It reads at most 256 more
  records from the ring.
\<close>
theorem shutdown_bounded:
  assumes "vacuum_flag api sent taken bapi contents flag_up" and "metrics_wf (vs_metrics st0)" "cpu < NCPU"
    and "leaves_worker taken sent rely" "keeps_flag flag_up rely"
    and "interleaved api bapi cpu rely m (AtCheck, st0) (p, st)" "flag_up (vs_world st)"
    and "interleaved api bapi cpu rely n (p, st) (p', st')" "516 \<le> n"
  shows "p' = Stopped \<and> length (taken (vs_world st')) \<le> length (taken (vs_world st)) + 256"
  using vacuum_flag.stops [OF assms(1-6) _ assms(8,9)] assms(7) by simp

theorem shutdown_bounded_witness:
  "\<exists>st. interleaved rw_api vec_api 2 rw_rely 3 (AtCheck, two_records) (Draining 254, st)
     \<and> fst (wsteps rw_api vec_api 2 516 (Draining 254, st)) = Stopped"
proof -
  obtain st where r: "interleaved rw_api vec_api 2 rw_rely 3 (AtCheck, two_records) (Draining 254, st)"
    "rw_polls (vs_world st) = 0"
    using two_records_run by blast
  have wf: "metrics_wf (vs_metrics two_records)" "2 < NCPU"
    by (simp_all add: NCPU_def two_records_def)
  obtain p' st' where s: "wsteps rw_api vec_api 2 516 (Draining 254, st) = (p', st')"
    by (cases "wsteps rw_api vec_api 2 516 (Draining 254, st)")
  have "interleaved rw_api vec_api 2 rw_rely 516 (Draining 254, st) (p', st')"
    using wsteps_interleaved s by metis
  from shutdown_bounded [OF ref_flag wf rw_rely r(1,2) this] have "p' = Stopped" by simp
  with r(1) s show ?thesis by auto
qed

end
