(* ===== verification/SG_System.thy ===== *)
theory SG_System
  imports SG_Smp SG_WorkerSteps
begin

text \<open>
  The running system: the kernel program on several CPUs (\<^verbatim>\<open>sg-ebpf\<close>), the vacuum worker
  of \<^verbatim>\<open>vacuum.rs\<close> in small steps, its bounded channel (\<^verbatim>\<open>dispatch.rs\<close>), the consumer
  thread and the shutdown flag (\<^verbatim>\<open>main.rs\<close>), in every interleaving. The worker runs over a
  world that contains the kernel with the shared ring; everything else acts between its
  steps.
\<close>

section \<open>The world\<close>

record sys =
  sy_kernel :: kstate
  sy_pend :: "u32 \<Rightarrow> signal_frame option"
  sy_taken :: "u8 list list"
  sy_chan :: chan
  sy_recv :: "signal_frame list"
  sy_flag :: bool

definition sys_api :: "sys vac_api" where
  "sys_api = \<lparr>
     set_affinity = (\<lambda>w c. (w, True)),
     load_shutdown = (\<lambda>w. (w, sy_flag w)),
     ring_next = (\<lambda>w. case ks_unread (sy_kernel w) of
        [] \<Rightarrow> (w, None)
      | r # rs \<Rightarrow> (w\<lparr>sy_kernel := (sy_kernel w)\<lparr>ks_unread := rs\<rparr>, sy_taken := sy_taken w @ [r]\<rparr>, Some r)),
     try_send = (\<lambda>w f. case chan_try_send (sy_chan w) f of (c, res) \<Rightarrow> (w\<lparr>sy_chan := c\<rparr>, res)),
     yield_now = (\<lambda>w. w)\<rparr>"

definition sys_sent :: "sys \<Rightarrow> signal_frame list" where
  "sys_sent w = ch_sent (sy_chan w)"

text \<open>What happens between two steps of the worker.\<close>

inductive sys_env :: "sys \<Rightarrow> sys \<Rightarrow> bool" where
  packet: "sy_pend w c = None \<Longrightarrow> xdp_prepare ref_bpf (ref_on_cpu c (sy_kernel w)) ctx = Some (k', fo) \<Longrightarrow>
    sys_env w (w\<lparr>sy_kernel := k', sy_pend := (sy_pend w)(c := fo)\<rparr>)"
| commit: "sy_pend w c = Some f \<Longrightarrow> xdp_commit ref_bpf (ref_on_cpu c (sy_kernel w)) f = (k', a) \<Longrightarrow>
    sys_env w (w\<lparr>sy_kernel := k', sy_pend := (sy_pend w)(c := None)\<rparr>)"
| tick: "ks_now (sy_kernel w) \<le> now \<Longrightarrow> sys_env w (w\<lparr>sy_kernel := (sy_kernel w)\<lparr>ks_now := now\<rparr>\<rparr>)"
| deny: "length d = DENY_MAP_ENTRIES \<Longrightarrow> sys_env w (w\<lparr>sy_kernel := (sy_kernel w)\<lparr>ks_deny := d\<rparr>\<rparr>)"
| receive: "ch_queue (sy_chan w) = f # fs \<Longrightarrow>
    sys_env w (w\<lparr>sy_chan := (sy_chan w)\<lparr>ch_queue := fs\<rparr>, sy_recv := sy_recv w @ [f]\<rparr>)"
| signal: "sys_env w (w\<lparr>sy_flag := True\<rparr>)"

definition sys_init :: "kstate \<Rightarrow> sys" where
  "sys_init k = \<lparr>sy_kernel = k, sy_pend = (\<lambda>_. None), sy_taken = [],
     sy_chan = chan_new DISPATCH_CAPACITY, sy_recv = [], sy_flag = False\<rparr>"

definition fresh_kernel :: "kstate \<Rightarrow> bool" where
  "fresh_kernel k \<longleftrightarrow> ref_inv k \<and> ks_history k = [] \<and> ks_unread k = []"

definition sys_start :: "kstate \<Rightarrow> metrics \<Rightarrow> (sys, signal_frame list) vac_state" where
  "sys_start k m = \<lparr>vs_world = sys_init k, vs_metrics = m, vs_batch = [], vs_last = 0\<rparr>"

text \<open>\<open>sys_run k m cpu n s\<close>: the system gets to \<open>s\<close> with \<open>n\<close> steps of the worker.\<close>

abbreviation sys_run ::
  "kstate \<Rightarrow> metrics \<Rightarrow> nat \<Rightarrow> nat \<Rightarrow> pc \<times> (sys, signal_frame list) vac_state \<Rightarrow> bool" where
  "sys_run k m cpu n s \<equiv> interleaved sys_api vec_api cpu sys_env n (AtCheck, sys_start k m) s"

lemma sys_api_sel [simp]:
  "set_affinity sys_api w c = (w, True)" "load_shutdown sys_api w = (w, sy_flag w)"
  "ring_next sys_api w = (case ks_unread (sy_kernel w) of
      [] \<Rightarrow> (w, None)
    | r # rs \<Rightarrow> (w\<lparr>sy_kernel := (sy_kernel w)\<lparr>ks_unread := rs\<rparr>, sy_taken := sy_taken w @ [r]\<rparr>, Some r))"
  "try_send sys_api w f = (case chan_try_send (sy_chan w) f of (c, res) \<Rightarrow> (w\<lparr>sy_chan := c\<rparr>, res))"
  "yield_now sys_api w = w"
  by (simp_all add: sys_api_def)

lemma sys_flag: "vacuum_flag sys_api sys_sent sy_taken vec_api id sy_flag"
  by unfold_locales
    (auto simp: sys_sent_def chan_try_send_def split: list.splits prod.splits if_splits)

interpretation sf: vacuum_flag sys_api sys_sent sy_taken vec_api id sy_flag
  by (rule sys_flag)

lemma sys_vacuum_env: "vacuum_env sys_api sys_sent sy_taken vec_api id" ..

lemma sys_env_worker: "leaves_worker sy_taken sys_sent sys_env" "keeps_flag sy_flag sys_env"
  by (auto simp: leaves_worker_def keeps_flag_def sys_sent_def elim: sys_env.cases)

section \<open>The invariant\<close>

text \<open>
  The kernel keeps the invariant of \<open>SG_Smp\<close>; what was committed is what the worker has
  taken and what is still in the ring, in commit order; what was sent is what the consumer has
  and what is still in the channel, which is connected and within its capacity.
\<close>

definition sys_inv :: "sys \<Rightarrow> bool" where
  "sys_inv w \<longleftrightarrow>
     smp_inv ref_bpf ref_inv ks_history (sy_kernel w, sy_pend w)
     \<and> ks_history (sy_kernel w) = sy_taken w @ ks_unread (sy_kernel w)
     \<and> ch_sent (sy_chan w) = sy_recv w @ ch_queue (sy_chan w)
     \<and> ch_open (sy_chan w) \<and> length (ch_queue (sy_chan w)) \<le> ch_capacity (sy_chan w)
     \<and> ch_capacity (sy_chan w) = DISPATCH_CAPACITY"

lemma prepare_unread:
  "xdp_prepare ref_bpf k ctx = Some (k', fo) \<Longrightarrow>
   ks_unread k' = ks_unread k \<and> ks_history k' = ks_history k"
  by (auto simp: xdp_prepare_cases select_def Let_def ref_bpf_def split: option.splits if_splits)

lemma commit_unread:
  "xdp_commit ref_bpf k f = (k', a) \<Longrightarrow>
   \<exists>new. ks_unread k' = ks_unread k @ new \<and> ks_history k' = ks_history k @ new"
  by (auto simp: xdp_commit_def ring_output_def ref_bpf_def ref_output_def split: prod.splits if_splits)

lemma on_cpu_sel [simp]:
  "ks_unread (ref_on_cpu c k) = ks_unread k" "ks_history (ref_on_cpu c k) = ks_history k"
  by (simp_all add: ref_on_cpu_def)

lemma sys_env_smp:
  assumes "sys_env w w'" "ref_inv (sy_kernel w)"
  shows "smp_step ref_bpf ref_inv ks_history ref_on_cpu (sy_kernel w, sy_pend w) (sy_kernel w', sy_pend w')"
  using assms
proof (cases rule: sys_env.cases)
  case (packet c ctx k' fo)
  then show ?thesis by (auto intro: smp_step.prepare)
next
  case (commit c f k' a)
  then show ?thesis by (auto intro: smp_step.commit)
qed (use assms(2) in \<open>auto intro!: smp_step.other simp: ref_inv_def ref_bpf_def\<close>)

lemma sys_env_inv:
  assumes "sys_inv w" "sys_env w w'"
  shows "sys_inv w'"
proof -
  have "ref_inv (sy_kernel w)" using assms(1) by (simp add: sys_inv_def smp_inv_def)
  from sys_env_smp [OF assms(2) this]
  have "smp_inv ref_bpf ref_inv ks_history (sy_kernel w', sy_pend w')"
    using rs.step_inv assms(1) by (auto simp: sys_inv_def)
  with assms(2,1) show ?thesis
    by (cases rule: sys_env.cases)
      (auto simp: sys_inv_def dest!: prepare_unread commit_unread)
qed


lemma next_sys_inv:
  assumes "sys_inv w" "ring_next sys_api w = (w', item)"
  shows "sys_inv w'"
proof (cases "ks_unread (sy_kernel w)")
  case Nil
  then show ?thesis using assms by simp
next
  case (Cons r rs)
  have smp: "smp_inv ref_bpf ref_inv ks_history (sy_kernel w, sy_pend w)"
    using assms(1) by (simp add: sys_inv_def)
  then have "ref_inv ((sy_kernel w)\<lparr>ks_unread := rs\<rparr>)" by (simp add: smp_inv_def ref_inv_def)
  then have "smp_inv ref_bpf ref_inv ks_history ((sy_kernel w)\<lparr>ks_unread := rs\<rparr>, sy_pend w)"
    by (rule rs.other_inv [OF smp]) (simp_all add: ref_bpf_def)
  then show ?thesis using assms Cons by (auto simp: sys_inv_def)
qed

lemma send_sys_inv: "sys_inv w \<Longrightarrow> try_send sys_api w f = (w', r) \<Longrightarrow> sys_inv w'"
  by (auto simp: sys_inv_def chan_try_send_def split: if_splits)

lemma dispatch_world:
  "try_dispatch send w f cpu m = (w', m', ok) \<Longrightarrow> \<exists>r. send w f = (w', r)"
  by (cases "send w f") (auto simp: try_dispatch_def split: sum.splits try_send_error.splits)

lemma wstep_sys_inv:
  assumes "sys_inv (vs_world (snd s))"
  shows "sys_inv (vs_world (snd (wstep sys_api vec_api cpu s)))"
proof (cases s rule: pc_state_cases)
  case (drain n st)
  obtain w' item where nx: "ring_next sys_api (vs_world st) = (w', item)"
    by (cases "ring_next sys_api (vs_world st)")
  have "sys_inv w'" using next_sys_inv [OF _ nx] assms drain by simp
  then show ?thesis
    using drain nx by (cases item) (simp_all add: start_dispatch_def take_record_def Let_def del: sys_api_sel)
next
  case (dispatch f fs st)
  obtain w1 m1 ok where d: "try_dispatch (try_send sys_api) (vs_world st) f cpu (vs_metrics st) = (w1, m1, ok)"
    by (metis prod_cases3)
  then have "sys_inv w1" using dispatch_world send_sys_inv assms dispatch by (metis snd_conv)
  then show ?thesis using dispatch d by (simp del: sys_api_sel)
qed (use assms in \<open>auto simp: start_dispatch_def\<close>)

lemma sys_start_inv: "fresh_kernel k \<Longrightarrow> sys_inv (vs_world (sys_start k m))"
  by (simp add: fresh_kernel_def sys_start_def sys_init_def sys_inv_def smp_inv_def chan_new_def
      cpu_ordered_def of_cpu_def)

lemma sys_run_inv:
  assumes "sys_run k m cpu n s" "fresh_kernel k"
  shows "sys_inv (vs_world (snd s))"
  using assms(1)
proof (induction n "(AtCheck, sys_start k m)" s rule: interleaved.induct)
  case start
  then show ?case using sys_start_inv [OF assms(2)] by simp
next
  case (work n s)
  then show ?case using wstep_sys_inv by blast
next
  case (others n p st w' m')
  then show ?case using sys_env_inv by simp
qed

section \<open>End to end\<close>

lemma accepted_subseq: "subseq (accepted prev rs) (map frame_of_bytes rs)"
  by (induction rs arbitrary: prev) auto

lemma sys_accounts:
  assumes "sys_run k m cpu n (p, st)" "fresh_kernel k" "metrics_wf m" "cpu < NCPU"
  shows "sys_inv (vs_world st) \<and> (\<exists>offered outs.
    accounts sy_taken sys_sent id cpu (sys_start k m) (p, st) (sy_taken (vs_world st)) offered outs
    \<and> Inl Disconnected \<notin> set outs)"
proof -
  have "metrics_wf (vs_metrics (sys_start k m))" using assms(3) by (simp add: sys_start_def)
  from sf.interleaved_accounts_inv [OF assms(1) this assms(4) sys_env_worker(1), of sys_inv]
  obtain rs offered outs where a: "sys_inv (vs_world st)"
    "accounts sy_taken sys_sent id cpu (sys_start k m) (p, st) rs offered outs"
    "\<forall>r\<in>set outs. answers sys_api sys_inv r"
    using sys_start_inv [OF assms(2)] sys_env_inv wstep_sys_inv by auto
  have "rs = sy_taken (vs_world st)" using a(2) by (simp add: accounts_def sys_start_def sys_init_def)
  moreover have "\<not> answers sys_api sys_inv (Inl Disconnected)"
    by (auto simp: answers_def sys_inv_def chan_try_send_def split: if_splits)
  ultimately show ?thesis using a by blast
qed

lemma sys_accounting:
  assumes "sys_run k m cpu n (p, st)" "fresh_kernel k" "metrics_wf m" "cpu < NCPU"
  shows "\<exists>offered outs.
    accepted 0 (sy_taken (vs_world st)) = offered @ in_flight id (p, st)
    \<and> sy_recv (vs_world st) @ ch_queue (sy_chan (vs_world st)) = delivered offered outs
    \<and> length outs = length offered
    \<and> own_count m (vs_metrics st) cpu (count_list outs (Inr ()))
        (length (sy_taken (vs_world st)) - length (accepted 0 (sy_taken (vs_world st)))) (count_list outs (Inl Full))
    \<and> Inl Disconnected \<notin> set outs \<and> sys_inv (vs_world st)"
proof -
  obtain offered outs where
    a: "accounts sy_taken sys_sent id cpu (sys_start k m) (p, st) (sy_taken (vs_world st)) offered outs"
      "Inl Disconnected \<notin> set outs" and i: "sys_inv (vs_world st)"
    using sys_accounts [OF assms] by blast
  have start: "sys_sent (sys_init k) = []" "vs_last (sys_start k m) = 0" "vs_metrics (sys_start k m) = m"
    "vs_world (sys_start k m) = sys_init k"
    by (simp_all add: sys_start_def sys_init_def sys_sent_def chan_new_def)
  have "sys_sent (vs_world st) = sy_recv (vs_world st) @ ch_queue (sy_chan (vs_world st))"
    using i by (simp add: sys_inv_def sys_sent_def)
  then have "sy_recv (vs_world st) @ ch_queue (sy_chan (vs_world st)) = delivered offered outs"
    using a(1) unfolding accounts_def snd_conv start append_Nil by metis
  then show ?thesis
    using a i unfolding accounts_def snd_conv start by blast
qed

text \<open>
  C1. The whole system, at every moment of every interleaving of the CPUs, the worker and the
  consumer: every record committed to the ring is in exactly one place. It is still unread, or
  it was read and its frame is received by the consumer, queued in the channel, in flight in the
  worker, counted as dropped by the timestamp check, or counted as refused by a full channel
  (sends never meet a disconnected channel). The consumer receives a subsequence of the
  committed frames in commit order.
\<close>
theorem system_conserves_frames:
  assumes run: "sys_run k m cpu n (p, st)" "fresh_kernel k" "metrics_wf m" "cpu < NCPU"
    and w: "w = vs_world st"
  shows "ks_history (sy_kernel w) = sy_taken w @ ks_unread (sy_kernel w)
    \<and> subseq (sy_recv w) (map frame_of_bytes (ks_history (sy_kernel w)))
    \<and> length (ch_queue (sy_chan w)) \<le> 1024
    \<and> (\<exists>dropped refused. own_count m (vs_metrics st) cpu
          (length (sy_recv w) + length (ch_queue (sy_chan w))) dropped refused
        \<and> dropped = length (sy_taken w) - length (accepted 0 (sy_taken w))
        \<and> length (ks_history (sy_kernel w)) = length (ks_unread (sy_kernel w)) + length (sy_recv w)
            + length (ch_queue (sy_chan w)) + length (in_flight id (p, st)) + dropped + refused)"
proof -
  obtain offered outs where
    acc: "accepted 0 (sy_taken w) = offered @ in_flight id (p, st)"
    and sent: "sy_recv w @ ch_queue (sy_chan w) = delivered offered outs"
    and len: "length outs = length offered"
    and m: "own_count m (vs_metrics st) cpu (count_list outs (Inr ()))
        (length (sy_taken w) - length (accepted 0 (sy_taken w))) (count_list outs (Inl Full))"
    and disc: "Inl Disconnected \<notin> set outs" and i: "sys_inv w"
    using sys_accounting [OF run] unfolding w by blast
  have hist: "ks_history (sy_kernel w) = sy_taken w @ ks_unread (sy_kernel w)"
    using i by (simp add: sys_inv_def)
  have d: "length (sy_recv w) + length (ch_queue (sy_chan w)) = count_list outs (Inr ())"
    using length_delivered [OF len [symmetric]] sent by (metis length_append)
  have "count_list outs (Inl Disconnected) = 0" using disc by (simp add: count_list_0_iff)
  have "length (ks_history (sy_kernel w)) = length (ks_unread (sy_kernel w)) + length (sy_recv w)
        + length (ch_queue (sy_chan w)) + length (in_flight id (p, st))
        + (length (sy_taken w) - length (accepted 0 (sy_taken w))) + count_list outs (Inl Full)"
    using d \<open>count_list outs (Inl Disconnected) = 0\<close> count_outcomes [of outs]
      length_accepted [of 0 "sy_taken w"] len by (simp add: hist acc)
  moreover have "subseq (sy_recv w) (map frame_of_bytes (ks_history (sy_kernel w)))"
  proof -
    have "subseq (sy_recv w) (sy_recv w @ ch_queue (sy_chan w))" by (intro prefix_imp_subseq prefixI) simp
    also have "subseq (sy_recv w @ ch_queue (sy_chan w)) offered" unfolding sent by (rule delivered_subseq)
    also have "subseq offered (accepted 0 (sy_taken w))" unfolding acc by (intro prefix_imp_subseq prefixI) simp
    also have "subseq (accepted 0 (sy_taken w)) (map frame_of_bytes (sy_taken w))" by (rule accepted_subseq)
    also have "subseq (map frame_of_bytes (sy_taken w)) (map frame_of_bytes (ks_history (sy_kernel w)))"
      unfolding hist by (intro prefix_imp_subseq prefixI) simp
    finally show ?thesis .
  qed
  moreover have "length (ch_queue (sy_chan w)) \<le> 1024"
    using i by (simp add: sys_inv_def DISPATCH_CAPACITY_def BATCH_SIZE_def)
  ultimately show ?thesis using hist m d by auto
qed


text \<open>A run: CPU 0 commits one frame, the worker passes its check and reads the record.\<close>

definition one_frame_world :: sys where
  "one_frame_world = (sys_init (race_kernel 10 0 {0} [race_frame 10 0]))
     \<lparr>sy_pend := (\<lambda>_. None)\<rparr>"

lemma fresh_race: "fresh_kernel (race_kernel 10 0 {} [])"
  by (simp add: fresh_kernel_def race_kernel_def boot_def ref_inv_def DENY_MAP_ENTRIES_def)

lemma own_count_refl: "metrics_wf m \<Longrightarrow> own_count m m cpu 0 0 0"
  by (simp add: own_count_def)

lemma one_frame_committed:
  "sys_run (race_kernel 10 0 {} []) metrics_new 0 0
     (AtCheck, (sys_start (race_kernel 10 0 {} []) metrics_new)\<lparr>vs_world := one_frame_world\<rparr>)"
proof -
  let ?k0 = "race_kernel 10 0 {} []" and ?k1 = "race_kernel 10 0 {0} []"
  let ?st0 = "sys_start ?k0 metrics_new"
  let ?w1 = "(sys_init ?k0)\<lparr>sy_kernel := ?k1, sy_pend := (\<lambda>_. None)(0 := Some (race_frame 10 0))\<rparr>"
  have "xdp_prepare ref_bpf (ref_on_cpu 0 ?k0) (ctx_of sample_packet) = Some (?k1, Some (race_frame 10 0))"
    using prepare_at [of ?k0] unfolding race_on_cpu
    by (simp add: race_kernel_def boot_def race_frame_def fun_eq_iff)
  then have s1: "sys_env (sys_init ?k0) ?w1"
    using sys_env.packet [of "sys_init ?k0" 0 "ctx_of sample_packet" ?k1 "Some (race_frame 10 0)"]
    by (simp add: sys_init_def)
  have "xdp_commit ref_bpf (ref_on_cpu 0 ?k1) (race_frame 10 0) = (race_kernel 10 0 {0} [race_frame 10 0], XDP_PASS)"
    using commit_at [of ?k1 "race_frame 10 0"] unfolding race_on_cpu
    by (simp add: race_kernel_def boot_def)
  then have s2: "sys_env ?w1 one_frame_world"
    using sys_env.commit [of ?w1 0 "race_frame 10 0" "race_kernel 10 0 {0} [race_frame 10 0]" XDP_PASS]
    by (simp add: sys_init_def one_frame_world_def fun_upd_idem_iff)
  have wf: "own_count metrics_new metrics_new 0 0 0 0" by (simp add: own_count_refl)
  have start: "vs_world ?st0 = sys_init ?k0" "vs_metrics ?st0 = metrics_new" by (simp_all add: sys_start_def)
  let ?st1 = "?st0\<lparr>vs_world := ?w1, vs_metrics := metrics_new\<rparr>"
  have r1: "sys_run ?k0 metrics_new 0 0 (AtCheck, ?st1)"
    by (rule interleaved.others [OF interleaved.start]) (simp_all only: start s1 wf)
  have st1: "vs_world ?st1 = ?w1" "vs_metrics ?st1 = metrics_new" by simp_all
  have "sys_run ?k0 metrics_new 0 0 (AtCheck, ?st1\<lparr>vs_world := one_frame_world, vs_metrics := metrics_new\<rparr>)"
    by (rule interleaved.others [OF r1]) (simp_all only: st1 s2 wf)
  then show ?thesis by (simp add: sys_start_def)
qed

definition one_frame_taken :: "(sys, signal_frame list) vac_state" where
  "one_frame_taken = \<lparr>vs_world = one_frame_world\<lparr>
      sy_kernel := (race_kernel 10 0 {0} [race_frame 10 0])\<lparr>ks_unread := []\<rparr>,
      sy_taken := [frame_bytes (race_frame 10 0)]\<rparr>,
    vs_metrics = metrics_new, vs_batch = [race_frame 10 0], vs_last = 10\<rparr>"

lemma one_frame_taken:
  "sys_run (race_kernel 10 0 {} []) metrics_new 0 2 (Draining 255, one_frame_taken)"
proof -
  let ?st = "(sys_start (race_kernel 10 0 {} []) metrics_new)\<lparr>vs_world := one_frame_world\<rparr>"
  have "sys_run (race_kernel 10 0 {} []) metrics_new 0 (Suc (Suc 0))
      (wstep sys_api vec_api 0 (wstep sys_api vec_api 0 (AtCheck, ?st)))"
    by (intro interleaved.work one_frame_committed)
  also have "wstep sys_api vec_api 0 (wstep sys_api vec_api 0 (AtCheck, ?st)) = (Draining 255, one_frame_taken)"
    by (simp add: sys_start_def one_frame_world_def sys_init_def race_kernel_def wstep_draining
        one_frame_taken_def BATCH_SIZE_def take_one good_def fc.dec_enc)
  finally show ?thesis unfolding numeral_2_eq_2 .
qed

lemma one_frame_read:
  "\<exists>st. sys_run (race_kernel 10 0 {} []) metrics_new 0 2 (Draining 255, st) \<and> vs_batch st = [race_frame 10 0]
     \<and> vs_metrics st = metrics_new \<and> sy_taken (vs_world st) = [frame_bytes (race_frame 10 0)]
     \<and> ks_history (sy_kernel (vs_world st)) = [frame_bytes (race_frame 10 0)]"
  by (intro exI [of _ one_frame_taken] conjI one_frame_taken)
    (simp_all add: one_frame_taken_def race_kernel_def)


theorem system_conserves_frames_witness:
  "\<exists>st. sys_run (race_kernel 10 0 {} []) metrics_new 0 2 (Draining 255, st)
     \<and> length (ks_history (sy_kernel (vs_world st))) = 1 \<and> in_flight id (Draining 255, st) = [race_frame 10 0]
     \<and> sy_recv (vs_world st) = [] \<and> ks_unread (sy_kernel (vs_world st)) = []"
proof -
  obtain st where r: "sys_run (race_kernel 10 0 {} []) metrics_new 0 2 (Draining 255, st)"
    "vs_batch st = [race_frame 10 0]" "ks_history (sy_kernel (vs_world st)) = [frame_bytes (race_frame 10 0)]"
    using one_frame_read by blast
  have m: "metrics_wf metrics_new" "0 < NCPU" by (simp_all add: NCPU_def)
  obtain dropped refused where "length (ks_history (sy_kernel (vs_world st)))
      = length (ks_unread (sy_kernel (vs_world st))) + length (sy_recv (vs_world st))
        + length (ch_queue (sy_chan (vs_world st))) + length (in_flight id (Draining 255, st)) + dropped + refused"
    using system_conserves_frames [OF r(1) fresh_race m refl] by blast
  then have "sy_recv (vs_world st) = []" "ks_unread (sy_kernel (vs_world st)) = []"
    using r(2,3) by simp_all
  then show ?thesis using r by auto
qed

lemma delivered_all: "length fs = length rs \<Longrightarrow> \<forall>r\<in>set rs. \<not> isl r \<Longrightarrow> delivered fs rs = fs"
  by (induction fs rs rule: list_induct2) auto

lemma no_refusal:
  assumes "Inl Disconnected \<notin> set outs" "count_list outs (Inl Full) = 0"
  shows "\<forall>r\<in>set outs. \<not> isl r"
proof
  fix r assume r: "r \<in> set outs"
  show "\<not> isl r"
  proof
    assume "isl r"
    then obtain e where "r = Inl e" by (auto simp: isl_def)
    then show False using r assms by (cases e) (auto simp: count_list_0_iff)
  qed
qed

lemma of_nat_eq_0_small: "n < 2 ^ 64 \<Longrightarrow> (of_nat n :: u64) = 0 \<Longrightarrow> n = 0"
  using of_nat_inverse [of n "0 :: u64"] by simp

text \<open>
  C5. With all committed records from one CPU, under every interleaving, the drop counter of
  the worker never moves. If the backpressure counter has not moved either, after fewer than
  2^64 reads (so that it cannot have wrapped), nothing is lost: what the consumer has received,
  what waits in the channel and what is in flight are together, in this order, the frames of
  all records read, in commit order.
\<close>
theorem system_one_cpu_lossless:
  assumes run: "sys_run k m cpu n (p, st)" "fresh_kernel k" "metrics_wf m" "cpu < NCPU"
    and w: "w = vs_world st" and one: "\<forall>r \<in> set (ks_history (sy_kernel w)). rec_cpu r = c"
  shows "drop_at (vs_metrics st) cpu = drop_at m cpu
    \<and> (full_at (vs_metrics st) cpu = full_at m cpu \<and> length (sy_taken w) < 2 ^ 64 \<longrightarrow>
        sy_recv w @ ch_queue (sy_chan w) @ in_flight id (p, st) = map frame_of_bytes (sy_taken w))"
proof (intro conjI impI; (elim conjE)?)
  obtain offered outs where
    acc: "accepted 0 (sy_taken w) = offered @ in_flight id (p, st)"
    and sent: "sy_recv w @ ch_queue (sy_chan w) = delivered offered outs"
    and len: "length outs = length offered"
    and m: "own_count m (vs_metrics st) cpu (count_list outs (Inr ()))
        (length (sy_taken w) - length (accepted 0 (sy_taken w))) (count_list outs (Inl Full))"
    and disc: "Inl Disconnected \<notin> set outs" and i: "sys_inv w"
    using sys_accounting [OF run] unfolding w by blast
  have hist: "ks_history (sy_kernel w) = sy_taken w @ ks_unread (sy_kernel w)"
    and ord: "cpu_ordered (ks_history (sy_kernel w))" "\<forall>r \<in> set (ks_history (sy_kernel w)). length r = 64"
    using i by (auto simp: sys_inv_def smp_inv_def)
  have all: "accepted 0 (sy_taken w) = map frame_of_bytes (sy_taken w)"
    using accepted_one_cpu [of "sy_taken w" "ks_unread (sy_kernel w)" c] ord one unfolding hist by auto
  show "drop_at (vs_metrics st) cpu = drop_at m cpu"
    using m by (simp add: own_count_def all)
  assume full: "full_at (vs_metrics st) cpu = full_at m cpu" "length (sy_taken w) < 2 ^ 64"
  have "count_list outs (Inl Full) \<le> length (sy_taken w)"
    using count_outcomes [of outs] length_accepted [of 0 "sy_taken w"] len by (simp add: acc)
  then have "count_list outs (Inl Full) = 0"
    using m full of_nat_eq_0_small [of "count_list outs (Inl Full)"] by (simp add: own_count_def)
  then have "delivered offered outs = offered"
    using no_refusal [OF disc] len by (intro delivered_all) simp_all
  then show "sy_recv w @ ch_queue (sy_chan w) @ in_flight id (p, st) = map frame_of_bytes (sy_taken w)"
    using sent acc all by (simp flip: append_assoc)
qed

theorem system_one_cpu_lossless_witness:
  "\<exists>st. sys_run (race_kernel 10 0 {} []) metrics_new 0 2 (Draining 255, st)
     \<and> sy_recv (vs_world st) @ ch_queue (sy_chan (vs_world st)) @ [race_frame 10 0] = [race_frame 10 0]"
proof -
  obtain st where r: "sys_run (race_kernel 10 0 {} []) metrics_new 0 2 (Draining 255, st)"
    "vs_batch st = [race_frame 10 0]" "vs_metrics st = metrics_new"
    "sy_taken (vs_world st) = [frame_bytes (race_frame 10 0)]"
    "ks_history (sy_kernel (vs_world st)) = [frame_bytes (race_frame 10 0)]"
    using one_frame_read by blast
  have m: "metrics_wf metrics_new" "0 < NCPU" by (simp_all add: NCPU_def)
  have one: "\<forall>r \<in> set (ks_history (sy_kernel (vs_world st))). rec_cpu r = 0"
    by (simp add: r(5) rec_cpu_def fc.dec_enc)
  from system_one_cpu_lossless [OF r(1) fresh_race m refl one] r show ?thesis
    by (auto simp: fc.dec_enc)
qed

end
