(* ===== verification/SG_Refinement.thy ===== *)
theory SG_Refinement
  imports SG_System
begin

text \<open>
  What the pipeline of \<^verbatim>\<open>sg-ebpf\<close>, \<^verbatim>\<open>vacuum.rs\<close>, \<^verbatim>\<open>dispatch.rs\<close> and the consumer of
  \<^verbatim>\<open>main.rs\<close> promises as a whole: a lossy first-in first-out queue of frames. The running
  system of \<open>SG_System\<close> is proved to refine it, step by step.
\<close>

section \<open>The abstract queue\<close>

text \<open>Frames under way, oldest first, and frames delivered.\<close>

type_synonym lossy_fifo = "signal_frame list \<times> signal_frame list"

inductive fifo_step :: "lossy_fifo \<Rightarrow> lossy_fifo \<Rightarrow> bool" where
  put: "fifo_step (xs, out) (xs @ [f], out)"
| get: "fifo_step (f # xs, out) (xs, out @ [f])"
| lose: "fifo_step (xs @ f # ys, out) (xs @ ys, out)"

inductive_cases fifo_stepE: "fifo_step s s'"

lemma fifo_step_le: "fifo_step s s' \<Longrightarrow> length (fst s') \<le> Suc (length (fst s))"
  by (auto elim!: fifo_stepE)

section \<open>The abstraction\<close>

text \<open>Under way is what waits in the channel, then what the worker holds, then what is in the ring.\<close>

definition sys_abs :: "pc \<times> (sys, signal_frame list) vac_state \<Rightarrow> lossy_fifo" where
  "sys_abs s = (let w = vs_world (snd s) in
     (ch_queue (sy_chan w) @ in_flight id s @ map frame_of_bytes (ks_unread (sy_kernel w)), sy_recv w))"

lemma lose_at: "s = (xs @ f # ys, out) \<Longrightarrow> s' = (xs @ ys, out) \<Longrightarrow> fifo_step\<^sup>=\<^sup>= s s'"
  by (simp add: fifo_step.lose)

lemma take_vec:
  "vs_world (take_record vec_api cpu r st) = vs_world st
   \<and> (vs_batch (take_record vec_api cpu r st) = vs_batch st @ [frame_of_bytes r]
      \<or> vs_batch (take_record vec_api cpu r st) = vs_batch st)"
  by (simp add: take_record_def Let_def)

lemma send_sys:
  assumes "try_dispatch (try_send sys_api) w f cpu m = (w', m', ok)"
  shows "sy_kernel w' = sy_kernel w \<and> sy_recv w' = sy_recv w
    \<and> ch_queue (sy_chan w') = (if ok then ch_queue (sy_chan w) @ [f] else ch_queue (sy_chan w))"
  using assms
  by (auto simp: try_dispatch_def chan_try_send_def split: sum.splits try_send_error.splits if_splits)

lemma wstep_refines: "fifo_step\<^sup>=\<^sup>= (sys_abs s) (sys_abs (wstep sys_api vec_api cpu s))"
proof (cases s rule: pc_state_cases)
  case (drain n st)
  show ?thesis
  proof (cases "ks_unread (sy_kernel (vs_world st))")
    case Nil
    then show ?thesis using drain by (simp add: sys_abs_def start_dispatch_def Let_def)
  next
    case (Cons r rs)
    let ?st = "st\<lparr>vs_world := (vs_world st)\<lparr>sy_kernel := (sy_kernel (vs_world st))\<lparr>ks_unread := rs\<rparr>,
      sy_taken := sy_taken (vs_world st) @ [r]\<rparr>\<rparr>"
    have step: "wstep sys_api vec_api cpu s = (Draining n, take_record vec_api cpu r ?st)"
      using drain Cons by simp
    have "vs_batch (take_record vec_api cpu r ?st) = vs_batch st @ [frame_of_bytes r]
        \<or> vs_batch (take_record vec_api cpu r ?st) = vs_batch st"
      using take_vec [of cpu r ?st] by simp
    then show ?thesis
    proof
      assume "vs_batch (take_record vec_api cpu r ?st) = vs_batch st @ [frame_of_bytes r]"
      then show ?thesis
        unfolding step using drain Cons take_vec [of cpu r ?st] by (simp add: sys_abs_def Let_def)
    next
      assume "vs_batch (take_record vec_api cpu r ?st) = vs_batch st"
      then show ?thesis
        unfolding step using drain Cons take_vec [of cpu r ?st]
        by (intro lose_at [of _ "ch_queue (sy_chan (vs_world st)) @ vs_batch st" "frame_of_bytes r"])
          (simp_all add: sys_abs_def Let_def)
    qed
  qed
next
  case (dispatch f fs st)
  obtain w1 m1 ok where d: "try_dispatch (try_send sys_api) (vs_world st) f cpu (vs_metrics st) = (w1, m1, ok)"
    by (metis prod_cases3)
  show ?thesis
  proof (cases ok)
    case True
    then show ?thesis using dispatch d send_sys [OF d] by (simp add: sys_abs_def Let_def del: sys_api_sel)
  next
    case False
    then show ?thesis
      using dispatch d send_sys [OF d]
      by (intro lose_at [of _ "ch_queue (sy_chan (vs_world st))" f])
        (simp_all add: sys_abs_def Let_def del: sys_api_sel)
  qed
qed (auto simp: sys_abs_def start_dispatch_def Let_def)

lemma in_flight_env [simp]:
  "in_flight contents (p, st\<lparr>vs_world := w', vs_metrics := m'\<rparr>) = in_flight contents (p, st)"
  by (cases p) simp_all

lemma sys_env_refines:
  assumes "sys_env (vs_world st) w'" "sys_inv (vs_world st)"
  shows "fifo_step\<^sup>=\<^sup>= (sys_abs (p, st)) (sys_abs (p, st\<lparr>vs_world := w', vs_metrics := m'\<rparr>))"
  using assms(1)
proof (cases rule: sys_env.cases)
  case (packet c ctx k' fo)
  then show ?thesis using prepare_unread [OF packet(3)] by (simp add: sys_abs_def Let_def)
next
  case (commit c f k' a)
  have "frame_wf f" using assms(2) commit(2) by (auto simp: sys_inv_def smp_inv_def)
  then have "ks_unread k' = ks_unread (sy_kernel (vs_world st))
      \<or> ks_unread k' = ks_unread (sy_kernel (vs_world st)) @ [frame_bytes f] \<and> frame_of_bytes (frame_bytes f) = f"
    using commit(3) by (auto simp: xdp_commit_def ring_output_def ref_bpf_def ref_output_def fc.dec_enc
        split: prod.splits if_splits)
  then show ?thesis
    using commit(1) fifo_step.put [of "fst (sys_abs (p, st))" "sy_recv (vs_world st)" f]
    by (auto simp: sys_abs_def Let_def)
next
  case (receive f fs)
  then show ?thesis
    using fifo_step.get [of f _ "sy_recv (vs_world st)"] by (simp add: sys_abs_def Let_def)
qed (auto simp: sys_abs_def Let_def)

lemma sys_run_refines:
  assumes "sys_run k m cpu n s" "fresh_kernel k"
  shows "fifo_step\<^sup>*\<^sup>* ([], []) (sys_abs s)"
  using assms(1)
proof (induction n "(AtCheck, sys_start k m)" s rule: interleaved.induct)
  case start
  show ?case
    using assms(2) by (simp add: sys_abs_def sys_start_def sys_init_def chan_new_def fresh_kernel_def)
next
  case (work n s)
  then show ?case using wstep_refines [of s cpu] by (auto intro: rtranclp.rtrancl_into_rtrancl)
next
  case (others n p st w' m')
  have "sys_inv (vs_world st)" using sys_run_inv [OF others(1) assms(2)] by simp
  from sys_env_refines [OF others(3) this, of p m'] others(2) show ?case
    by (auto intro: rtranclp.rtrancl_into_rtrancl)
qed

text \<open>
  C2. The running system refines a lossy first-in first-out queue. Take as under way the
  frames queued in the channel, then those the worker holds, then those in the ring, and as
  delivered what the consumer received. Every step of the worker and everything that happens
  between its steps either leaves this view unchanged or is one step of the queue: a frame
  enters at the end, the oldest is delivered, or one is lost. Nothing is duplicated, invented or
  reordered.
\<close>
theorem system_refines_lossy_fifo:
  assumes "sys_run k m cpu n (p, st)" "fresh_kernel k"
  shows "fifo_step\<^sup>*\<^sup>* ([], []) (sys_abs (p, st))
    \<and> fifo_step\<^sup>=\<^sup>= (sys_abs (p, st)) (sys_abs (wstep sys_api vec_api cpu (p, st)))
    \<and> (\<forall>w'. sys_env (vs_world st) w' \<longrightarrow>
         fifo_step\<^sup>=\<^sup>= (sys_abs (p, st)) (sys_abs (p, st\<lparr>vs_world := w'\<rparr>)))"
proof (intro conjI allI impI)
  fix w' assume e: "sys_env (vs_world st) w'"
  have "sys_inv (vs_world st)" using sys_run_inv [OF assms] by simp
  from sys_env_refines [OF e this, of p "vs_metrics st"]
  show "fifo_step\<^sup>=\<^sup>= (sys_abs (p, st)) (sys_abs (p, st\<lparr>vs_world := w'\<rparr>))" by simp
qed (use sys_run_refines [OF assms] wstep_refines in auto)

theorem system_refines_lossy_fifo_witness:
  "fifo_step\<^sup>*\<^sup>* ([], []) ([race_frame 10 0], [])"
proof -
  let ?st = "(sys_start (race_kernel 10 0 {} []) metrics_new)\<lparr>vs_world := one_frame_world\<rparr>"
  have "sys_abs (AtCheck, ?st) = ([race_frame 10 0], [])"
    by (simp add: sys_abs_def one_frame_world_def sys_init_def race_kernel_def chan_new_def fc.dec_enc)
  then show ?thesis
    using system_refines_lossy_fifo [OF one_frame_committed fresh_race] by simp
qed

end
