(* ===== verification/SG_Consumer.thy ===== *)
theory SG_Consumer
  imports SG_Dispatch
begin

text \<open>
  The no-op consumer thread of \<^verbatim>\<open>sg-capture/src/main.rs\<close>: \<^verbatim>\<open>while rx.recv().is_ok() {}\<close>,
  one turn at a time, so that the worker and the kernel can act between two turns. The
  receiving end of the channel is an argument; \<open>None\<close> is a call that blocks. The locale
  \<open>frame_receiver\<close> is its documented behaviour: messages come out in order, and an error is
  returned exactly when the channel is empty and every sender is gone.
\<close>

text \<open>One evaluation of the loop's condition: the boolean says whether the loop goes on.\<close>

definition consumer_turn ::
  "('w \<Rightarrow> ('w \<times> (unit + signal_frame)) option) \<Rightarrow> 'w \<Rightarrow> ('w \<times> bool) option" where
  "consumer_turn recv w =
     (case recv w of
        None \<Rightarrow> None
      | Some (w', Inl _) \<Rightarrow> Some (w', False)
      | Some (w', Inr _) \<Rightarrow> Some (w', True))"

locale frame_receiver =
  fixes recv :: "'w \<Rightarrow> ('w \<times> (unit + signal_frame)) option"
    and queue received :: "'w \<Rightarrow> signal_frame list"
    and hung_up :: "'w \<Rightarrow> bool"
  assumes recv_next: "queue w = f # fs \<Longrightarrow> \<exists>w'. recv w = Some (w', Inr f) \<and> queue w' = fs \<and>
      received w' = received w @ [f]"
    and recv_end: "queue w = [] \<Longrightarrow> hung_up w \<Longrightarrow> recv w = Some (w, Inl ())"
    and recv_block: "queue w = [] \<Longrightarrow> \<not> hung_up w \<Longrightarrow> recv w = None"
begin

text \<open>The loop goes on exactly after a message, and ends exactly at the hang-up of an empty channel.\<close>

lemma turn_goes_on:
  "consumer_turn recv w = Some (w', True) \<Longrightarrow>
   \<exists>f fs. queue w = f # fs \<and> queue w' = fs \<and> received w' = received w @ [f]"
  using recv_next [of w] recv_end [of w] recv_block [of w]
  by (cases "queue w"; cases "hung_up w") (auto simp: consumer_turn_def)

lemma turn_ends:
  "consumer_turn recv w = Some (w', False) \<Longrightarrow> queue w = [] \<and> hung_up w \<and> w' = w"
  using recv_next [of w] recv_end [of w] recv_block [of w]
  by (cases "queue w"; cases "hung_up w") (auto simp: consumer_turn_def)

lemma turn_blocks_iff: "consumer_turn recv w = None \<longleftrightarrow> queue w = [] \<and> \<not> hung_up w"
  using recv_next [of w] recv_end [of w] recv_block [of w]
  by (cases "queue w"; cases "hung_up w") (auto simp: consumer_turn_def)

end

end
