(* ===== verification/SG_Pipeline.thy ===== *)
theory SG_Pipeline
  imports SG_System SG_Consumer
begin

text \<open>
  The threads of one pipeline of \<^verbatim>\<open>sg-capture/src/main.rs\<close>: the vacuum worker and the
  consumer, running side by side over the world of \<open>SG_System\<close>, and who owns the two ends of
  their channel. The consumer's \<^verbatim>\<open>recv\<close> returns an error only when no sender is left, so
  whether the consumer ends depends on where the code moves the sender and on when its owner
  drops it.
\<close>

section \<open>Ownership of the channel\<close>

datatype thread = MainThread | ConsumerThread | WorkerThread

text \<open>
  One element of \<open>pp_tx\<close> (\<open>pp_rx\<close>) per live \<^verbatim>\<open>DispatchSender\<close> (\<^verbatim>\<open>DispatchReceiver\<close>):
  the thread that owns it. \<open>pp_live\<close> are the threads that run.
\<close>

record pipe =
  pp_pc :: pc
  pp_st :: "(sys, signal_frame list) vac_state"
  pp_tx :: "thread list"
  pp_rx :: "thread list"
  pp_live :: "thread set"

abbreviation pp_world :: "pipe \<Rightarrow> sys" where
  "pp_world s \<equiv> vs_world (pp_st s)"

definition set_world :: "sys \<Rightarrow> pipe \<Rightarrow> pipe" where
  "set_world w s = s\<lparr>pp_st := (pp_st s)\<lparr>vs_world := w\<rparr>\<rparr>"

text \<open>
  The spawn loop's body: \<^verbatim>\<open>main\<close> creates the channel and owns both ends, moves the
  receiver into the consumer's closure and the sender into the worker's configuration.
\<close>

definition create_channel :: "kstate \<Rightarrow> metrics \<Rightarrow> pipe" where
  "create_channel k m =
     (case dispatch_channel (\<lambda>_. ([MainThread], [MainThread])) of
        (tx, rx) \<Rightarrow> \<lparr>pp_pc = AtCheck, pp_st = sys_start k m, pp_tx = tx, pp_rx = rx, pp_live = {}\<rparr>)"

definition start_consumer :: "pipe \<Rightarrow> pipe" where
  "start_consumer s =
     s\<lparr>pp_rx := map (\<lambda>_. ConsumerThread) (pp_rx s), pp_live := insert ConsumerThread (pp_live s)\<rparr>"

definition start_worker :: "pipe \<Rightarrow> pipe" where
  "start_worker s =
     s\<lparr>pp_tx := map (\<lambda>_. WorkerThread) (pp_tx s), pp_live := insert WorkerThread (pp_live s)\<rparr>"

definition open_pipeline :: "kstate \<Rightarrow> metrics \<Rightarrow> pipe" where
  "open_pipeline k m = start_worker (start_consumer (create_channel k m))"

text \<open>
  A thread whose closure returns drops what it owns. The channel is connected for a sender as
  long as a receiver is left.
\<close>

definition end_thread :: "thread \<Rightarrow> pipe \<Rightarrow> pipe" where
  "end_thread t s =
     (let w = pp_world s; rx = filter (\<lambda>u. u \<noteq> t) (pp_rx s) in
      (set_world (w\<lparr>sy_chan := (sy_chan w)\<lparr>ch_open := rx \<noteq> []\<rparr>\<rparr>) s)
        \<lparr>pp_tx := filter (\<lambda>u. u \<noteq> t) (pp_tx s), pp_rx := rx, pp_live := pp_live s - {t}\<rparr>)"

text \<open>The receiving end of the reference channel, with the owners of the live senders.\<close>

definition chan_recv :: "thread list \<Rightarrow> sys \<Rightarrow> (sys \<times> (unit + signal_frame)) option" where
  "chan_recv senders w =
     (case ch_queue (sy_chan w) of
        f # fs \<Rightarrow>
          Some (w\<lparr>sy_chan := (sy_chan w)\<lparr>ch_queue := fs\<rparr>, sy_recv := sy_recv w @ [f]\<rparr>, Inr f)
      | [] \<Rightarrow> if senders = [] then Some (w, Inl ()) else None)"

lemma chan_receiver:
  "frame_receiver (chan_recv senders) (\<lambda>w. ch_queue (sy_chan w)) sy_recv (\<lambda>_. senders = [])"
  by unfold_locales (auto simp: chan_recv_def)

interpretation cr: frame_receiver "chan_recv senders" "\<lambda>w. ch_queue (sy_chan w)" sy_recv
    "\<lambda>_. senders = []" for senders
  by (rule chan_receiver)

section \<open>Steps\<close>

text \<open>
  A step of the worker (its loop, then the return of \<^verbatim>\<open>vacuum_entry\<close>) or of the consumer (a
  turn of its loop, the last one of which returns).
\<close>

inductive thread_step :: "nat \<Rightarrow> pipe \<Rightarrow> pipe \<Rightarrow> bool" for cpu where
  work: "WorkerThread \<in> pp_live s \<Longrightarrow> pp_pc s \<noteq> Stopped \<Longrightarrow>
    wstep sys_api vec_api cpu (pp_pc s, pp_st s) = (p', st') \<Longrightarrow>
    thread_step cpu s (s\<lparr>pp_pc := p', pp_st := st'\<rparr>)"
| return: "WorkerThread \<in> pp_live s \<Longrightarrow> pp_pc s = Stopped \<Longrightarrow>
    thread_step cpu s (end_thread WorkerThread s)"
| consume: "ConsumerThread \<in> pp_live s \<Longrightarrow>
    consumer_turn (chan_recv (pp_tx s)) (pp_world s) = Some (w', go) \<Longrightarrow>
    thread_step cpu s (if go then set_world w' s else end_thread ConsumerThread (set_world w' s))"

text \<open>Everything else: the events of \<open>sys_env\<close> but the reception of a frame, which is a step above.\<close>

inductive other_step :: "nat \<Rightarrow> pipe \<Rightarrow> pipe \<Rightarrow> bool" for cpu where
  env: "sys_env (pp_world s) w' \<Longrightarrow> sy_recv w' = sy_recv (pp_world s) \<Longrightarrow>
    own_count (vs_metrics (pp_st s)) m' cpu 0 0 0 \<Longrightarrow>
    other_step cpu s (s\<lparr>pp_st := (pp_st s)\<lparr>vs_world := w', vs_metrics := m'\<rparr>\<rparr>)"

inductive_cases thread_stepE: "thread_step cpu s s'"
inductive_cases other_stepE: "other_step cpu s s'"

text \<open>\<open>pipe_run cpu j s s'\<close>: from \<open>s\<close> to \<open>s'\<close> with \<open>j\<close> steps of the two threads.\<close>

inductive pipe_run :: "nat \<Rightarrow> nat \<Rightarrow> pipe \<Rightarrow> pipe \<Rightarrow> bool" for cpu where
  init: "pipe_run cpu 0 s s"
| thread: "pipe_run cpu j s s' \<Longrightarrow> thread_step cpu s' s'' \<Longrightarrow> pipe_run cpu (Suc j) s s''"
| other: "pipe_run cpu j s s' \<Longrightarrow> other_step cpu s' s'' \<Longrightarrow> pipe_run cpu j s s''"

lemma pipe_run_trans:
  "pipe_run cpu j s1 s2 \<Longrightarrow> pipe_run cpu i s s1 \<Longrightarrow> pipe_run cpu (i + j) s s2"
  by (induction rule: pipe_run.induct) (auto intro: pipe_run.intros)

section \<open>The invariant\<close>

text \<open>
  While the worker runs, it owns the only sender and the consumer runs and owns the only
  receiver; the consumer is gone only after the worker and with an empty channel. Up to the
  connectedness of the channel, which no thread sees then, the state is one of \<open>SG_System\<close>.
\<close>

definition reopened :: "sys \<Rightarrow> sys" where
  "reopened w = w\<lparr>sy_chan := (sy_chan w)\<lparr>ch_open := True\<rparr>\<rparr>"

definition pipe_threads :: "pipe \<Rightarrow> bool" where
  "pipe_threads s \<longleftrightarrow>
     MainThread \<notin> pp_live s
     \<and> pp_tx s = (if WorkerThread \<in> pp_live s then [WorkerThread] else [])
     \<and> pp_rx s = (if ConsumerThread \<in> pp_live s then [ConsumerThread] else [])
     \<and> ch_open (sy_chan (pp_world s)) = (ConsumerThread \<in> pp_live s)
     \<and> (WorkerThread \<in> pp_live s \<longrightarrow> ConsumerThread \<in> pp_live s)
     \<and> (WorkerThread \<notin> pp_live s \<longrightarrow> pp_pc s = Stopped)
     \<and> (ConsumerThread \<notin> pp_live s \<longrightarrow> ch_queue (sy_chan (pp_world s)) = [])"

definition pipe_inv :: "kstate \<Rightarrow> metrics \<Rightarrow> nat \<Rightarrow> pipe \<Rightarrow> bool" where
  "pipe_inv k m cpu s \<longleftrightarrow> pipe_threads s \<and>
     (\<exists>n. sys_run k m cpu n (pp_pc s, (pp_st s)\<lparr>vs_world := reopened (pp_world s)\<rparr>))"

lemma pipe_invI:
  "pipe_threads s \<Longrightarrow> sys_run k m cpu n (pp_pc s, (pp_st s)\<lparr>vs_world := reopened (pp_world s)\<rparr>) \<Longrightarrow>
   pipe_inv k m cpu s"
  unfolding pipe_inv_def by blast

lemma reopened_sel [simp]:
  "sy_kernel (reopened w) = sy_kernel w" "sy_taken (reopened w) = sy_taken w"
  "sy_recv (reopened w) = sy_recv w" "sy_flag (reopened w) = sy_flag w" "sy_pend (reopened w) = sy_pend w"
  "ch_queue (sy_chan (reopened w)) = ch_queue (sy_chan w)" "ch_sent (sy_chan (reopened w)) = ch_sent (sy_chan w)"
  by (simp_all add: reopened_def)

lemma reopened_upd:
  "reopened (w\<lparr>sy_kernel := k, sy_pend := q\<rparr>) = (reopened w)\<lparr>sy_kernel := k, sy_pend := q\<rparr>"
  "reopened (w\<lparr>sy_kernel := k\<rparr>) = (reopened w)\<lparr>sy_kernel := k\<rparr>"
  "reopened (w\<lparr>sy_flag := b\<rparr>) = (reopened w)\<lparr>sy_flag := b\<rparr>"
  by (simp_all add: reopened_def)

lemma reopened_open: "ch_open (sy_chan w) \<Longrightarrow> reopened w = w"
  by (simp add: reopened_def)

lemma set_world_sel [simp]:
  "pp_pc (set_world w s) = pp_pc s" "pp_world (set_world w s) = w" "pp_tx (set_world w s) = pp_tx s"
  "pp_rx (set_world w s) = pp_rx s" "pp_live (set_world w s) = pp_live s"
  "pp_st (set_world w s) = (pp_st s)\<lparr>vs_world := w\<rparr>"
  by (simp_all add: set_world_def)

lemma end_thread_sel [simp]:
  "pp_pc (end_thread t s) = pp_pc s" "pp_live (end_thread t s) = pp_live s - {t}"
  "pp_tx (end_thread t s) = filter (\<lambda>u. u \<noteq> t) (pp_tx s)"
  "pp_rx (end_thread t s) = filter (\<lambda>u. u \<noteq> t) (pp_rx s)"
  "reopened (pp_world (end_thread t s)) = reopened (pp_world s)"
  "ch_queue (sy_chan (pp_world (end_thread t s))) = ch_queue (sy_chan (pp_world s))"
  "ch_open (sy_chan (pp_world (end_thread t s))) = (filter (\<lambda>u. u \<noteq> t) (pp_rx s) \<noteq> [])"
  "sy_flag (pp_world (end_thread t s)) = sy_flag (pp_world s)"
  "(pp_st (end_thread t s))\<lparr>vs_world := w\<rparr> = (pp_st s)\<lparr>vs_world := w\<rparr>"
  "vs_metrics (pp_st (end_thread t s)) = vs_metrics (pp_st s)"
  "sy_recv (pp_world (end_thread t s)) = sy_recv (pp_world s)"
  "ch_sent (sy_chan (pp_world (end_thread t s))) = ch_sent (sy_chan (pp_world s))"
  by (simp_all add: end_thread_def Let_def reopened_def)

lemma open_pipeline_inv: "pipe_inv k m cpu (open_pipeline k m)"
proof -
  have st: "pp_st (open_pipeline k m) = sys_start k m" "pp_pc (open_pipeline k m) = AtCheck"
    by (simp_all add: open_pipeline_def start_worker_def start_consumer_def create_channel_def
        split: prod.splits)
  have w: "ch_open (sy_chan (vs_world (sys_start k m)))" by (simp add: sys_start_def sys_init_def chan_new_def)
  then have "pipe_threads (open_pipeline k m)"
    by (auto simp: pipe_threads_def open_pipeline_def start_worker_def start_consumer_def create_channel_def
        dispatch_channel_def)
  moreover have "sys_run k m cpu 0 (AtCheck, sys_start k m)" by (rule interleaved.start)
  ultimately show ?thesis
    using w by (intro pipe_invI [where n = 0]) (simp_all add: st reopened_open)
qed

text \<open>While the consumer runs the channel is connected, and the run is one of \<open>SG_System\<close> itself.\<close>

lemma pipe_inv_open:
  "pipe_inv k m cpu s \<Longrightarrow> ConsumerThread \<in> pp_live s \<Longrightarrow>
   \<exists>n. sys_run k m cpu n (pp_pc s, pp_st s)"
  by (auto simp: pipe_inv_def pipe_threads_def reopened_open)

lemma env_reopened:
  assumes "sys_env w w'" "sy_recv w' = sy_recv w"
  shows "sys_env (reopened w) (reopened w') \<and> sy_chan w' = sy_chan w"
  using assms
proof (cases rule: sys_env.cases)
  case (packet c ctx k' fo)
  then show ?thesis using sys_env.packet [of "reopened w" c ctx k' fo] by (simp add: reopened_upd)
next
  case (commit c f k' a)
  then show ?thesis using sys_env.commit [of "reopened w" c f k' a] by (simp add: reopened_upd)
next
  case (tick now)
  then show ?thesis using sys_env.tick [of "reopened w" now] by (simp add: reopened_upd)
next
  case (deny d)
  then show ?thesis using sys_env.deny [of d "reopened w"] by (simp add: reopened_upd)
next
  case (receive f fs)
  then show ?thesis using assms(2) by simp
next
  case signal
  then show ?thesis using sys_env.signal [of "reopened w"] by (simp add: reopened_upd)
qed

lemma consume_env:
  assumes "consumer_turn (chan_recv senders) w = Some (w', True)"
  shows "sys_env w w'"
proof -
  obtain f fs where "ch_queue (sy_chan w) = f # fs" using cr.turn_goes_on [OF assms] by blast
  with assms show ?thesis
    using sys_env.receive [of w f fs] by (simp add: consumer_turn_def chan_recv_def)
qed

lemma run_wf:
  assumes "sys_run k m cpu n (p, st)" "fresh_kernel k" "metrics_wf m" "cpu < NCPU"
  shows "batch_room id (p, st) \<and> metrics_wf (vs_metrics st) \<and> sys_inv (vs_world st)"
proof -
  have "metrics_wf (vs_metrics (sys_start k m))" using assms(3) by (simp add: sys_start_def)
  from sf.interleaved_accounts [OF assms(1) this assms(4) sys_env_worker(1)]
  show ?thesis
    using sys_run_inv [OF assms(1,2)] by (auto simp: accounts_def own_count_def)
qed

lemma set_world_same [simp]: "set_world (pp_world s) s = s"
  by (simp add: set_world_def)

lemma thread_step_inv:
  assumes "pipe_inv k m cpu s" "thread_step cpu s s'" and k: "fresh_kernel k" "metrics_wf m" "cpu < NCPU"
  shows "pipe_inv k m cpu s'"
proof -
  have th: "pipe_threads s" using assms(1) by (simp add: pipe_inv_def)
  show ?thesis using assms(2)
  proof (cases rule: thread_step.cases)
    case (work p' st')
    have live: "ConsumerThread \<in> pp_live s" using th work by (simp add: pipe_threads_def)
    obtain n where "sys_run k m cpu n (pp_pc s, pp_st s)" using pipe_inv_open [OF assms(1) live] by blast
    then have run: "sys_run k m cpu (Suc n) (p', st')" using interleaved.work work(4) by metis
    then have op: "ch_open (sy_chan (vs_world st'))" using run_wf [OF _ k] by (simp add: sys_inv_def)
    then have "pipe_threads s'" using th live work(1,2) by (simp add: pipe_threads_def)
    then show ?thesis by (rule pipe_invI) (use run op work(1) in \<open>simp add: reopened_open\<close>)
  next
    case return
    then have "pipe_threads s'" using th by (simp add: pipe_threads_def)
    then show ?thesis using assms(1) return(1) by (simp add: pipe_inv_def)
  next
    case (consume w' go)
    obtain n where run: "sys_run k m cpu n (pp_pc s, pp_st s)"
      using pipe_inv_open [OF assms(1) consume(2)] by blast
    show ?thesis
    proof (cases go)
      case True
      have m: "own_count (vs_metrics (pp_st s)) (vs_metrics (pp_st s)) cpu 0 0 0"
        using run_wf [OF run k] by (simp add: own_count_refl)
      have "sys_run k m cpu n (pp_pc s, (pp_st s)\<lparr>vs_world := w', vs_metrics := vs_metrics (pp_st s)\<rparr>)"
        using consume(3) True by (intro interleaved.others [OF run _ m]) (simp add: consume_env)
      then have run': "sys_run k m cpu n (pp_pc s, (pp_st s)\<lparr>vs_world := w'\<rparr>)" by simp
      then have op: "ch_open (sy_chan w')" using run_wf [OF run' k] by (simp add: sys_inv_def)
      then have "pipe_threads s'" using th consume(1,2) True by (simp add: pipe_threads_def)
      then show ?thesis by (rule pipe_invI) (use run' op consume(1) True in \<open>simp add: reopened_open\<close>)
    next
      case False
      then have turn: "consumer_turn (chan_recv (pp_tx s)) (pp_world s) = Some (w', False)"
        using consume(3) by simp
      have "ch_queue (sy_chan (pp_world s)) = []" "pp_tx s = []" "w' = pp_world s"
        using cr.turn_ends [OF turn] by simp_all
      then have "pipe_threads s'"
        using th consume(1) False by (simp add: pipe_threads_def split: if_splits)
      then show ?thesis using assms(1) consume(1) False \<open>w' = pp_world s\<close> by (simp add: pipe_inv_def)
    qed
  qed
qed

lemma other_step_inv:
  assumes "pipe_inv k m cpu s" "other_step cpu s s'"
  shows "pipe_inv k m cpu s'"
  using assms(2)
proof (cases rule: other_step.cases)
  case (env w' m')
  let ?r = "(pp_st s)\<lparr>vs_world := reopened (pp_world s)\<rparr>"
  obtain n where run: "sys_run k m cpu n (pp_pc s, ?r)" using assms(1) by (auto simp: pipe_inv_def)
  note e = env_reopened [OF env(2,3)]
  have run': "sys_run k m cpu n (pp_pc s, ?r\<lparr>vs_world := reopened w', vs_metrics := m'\<rparr>)"
    by (rule interleaved.others [OF run]) (use e env in simp_all)
  have "?r\<lparr>vs_world := reopened w', vs_metrics := m'\<rparr>
      = (pp_st s')\<lparr>vs_world := reopened (pp_world s')\<rparr>" "pp_pc s' = pp_pc s"
    unfolding env(1) by simp_all
  note run'' = run' [unfolded this(1), folded this(2)]
  have "pipe_threads s'" using assms(1) env(1) e by (simp add: pipe_inv_def pipe_threads_def)
  then show ?thesis using run'' by (rule pipe_invI)
qed

lemma pipe_run_inv:
  assumes "pipe_run cpu j s s'" "pipe_inv k m cpu s" "fresh_kernel k" "metrics_wf m" "cpu < NCPU"
  shows "pipe_inv k m cpu s'"
  using assms(1,2)
  by (induction rule: pipe_run.induct) (auto intro: other_step_inv thread_step_inv [OF _ _ assms(3-5)])

section \<open>The end of a run\<close>

text \<open>
  With the flag up every step of the two threads shortens what is left: twice the steps of the
  worker's loop (each may send a frame) and its return, the frames that wait, the consumer's
  return.
\<close>

definition pipe_left :: "pipe \<Rightarrow> nat" where
  "pipe_left s =
     (if WorkerThread \<in> pp_live s then 1 + 2 * steps_left id (pp_pc s, pp_st s) else 0)
     + length (ch_queue (sy_chan (pp_world s))) + (if ConsumerThread \<in> pp_live s then 1 else 0)"

lemma wstep_queue:
  "length (ch_queue (sy_chan (vs_world (snd (wstep sys_api vec_api cpu s)))))
     \<le> Suc (length (ch_queue (sy_chan (vs_world (snd s)))))"
proof (cases s rule: pc_state_cases)
  case (dispatch f fs st)
  obtain w1 m1 ok where d: "try_dispatch (try_send sys_api) (vs_world st) f cpu (vs_metrics st) = (w1, m1, ok)"
    by (metis prod_cases3)
  obtain r where "try_send sys_api (vs_world st) f = (w1, r)" using dispatch_world [OF d] by blast
  then have "length (ch_queue (sy_chan w1)) \<le> Suc (length (ch_queue (sy_chan (vs_world st))))"
    by (auto simp: chan_try_send_def split: if_splits)
  then show ?thesis using dispatch d by (simp del: sys_api_sel)
qed (auto simp: start_dispatch_def take_record_def Let_def split: list.split prod.split)

lemma thread_step_left:
  assumes "pipe_inv k m cpu s" "thread_step cpu s s'" and k: "fresh_kernel k" "metrics_wf m" "cpu < NCPU"
    and up: "sy_flag (pp_world s)"
  shows "sy_flag (pp_world s') \<and> pipe_left s' < pipe_left s"
  using assms(2)
proof (cases rule: thread_step.cases)
  case (work p' st')
  have "ConsumerThread \<in> pp_live s" using assms(1) work by (simp add: pipe_inv_def pipe_threads_def)
  from pipe_inv_open [OF assms(1) this] obtain n where run: "sys_run k m cpu n (pp_pc s, pp_st s)" by blast
  have wf: "batch_room id (pp_pc s, pp_st s)" "metrics_wf (vs_metrics (snd (pp_pc s, pp_st s)))"
    using run_wf [OF run k] by simp_all
  have up': "sy_flag (vs_world (snd (pp_pc s, pp_st s)))" using up by simp
  note steps = sf.steps_left_step [OF up' wf k(3)]
  moreover have "0 < steps_left id (pp_pc s, pp_st s)" using work(3) by (cases "pp_pc s") simp_all
  moreover note wstep_queue [of cpu "(pp_pc s, pp_st s)"]
  ultimately show ?thesis using work by (auto simp: pipe_left_def simp del: wstep.simps)
next
  case return
  then show ?thesis using up by (simp add: pipe_left_def)
next
  case (consume w' go)
  show ?thesis
  proof (cases go)
    case True
    with consume(3) have turn: "consumer_turn (chan_recv (pp_tx s)) (pp_world s) = Some (w', True)" by simp
    obtain f fs where q: "ch_queue (sy_chan (pp_world s)) = f # fs" "ch_queue (sy_chan w') = fs"
      using cr.turn_goes_on [OF turn] by blast
    have "sy_flag w'" using up sys_env_worker(2) consume_env [OF turn] by (auto simp: keeps_flag_def)
    moreover have "steps_left id (pp_pc s, (pp_st s)\<lparr>vs_world := w'\<rparr>) = steps_left id (pp_pc s, pp_st s)"
      by (cases "pp_pc s") simp_all
    ultimately show ?thesis using consume(1) True q by (simp add: pipe_left_def)
  next
    case False
    with consume(3) have turn: "consumer_turn (chan_recv (pp_tx s)) (pp_world s) = Some (w', False)" by simp
    then have "pp_tx s = []" "w' = pp_world s" using cr.turn_ends by blast+
    then have "WorkerThread \<notin> pp_live s"
      using assms(1) by (auto simp: pipe_inv_def pipe_threads_def split: if_splits)
    then show ?thesis using consume(1,2) False up \<open>w' = pp_world s\<close> by (simp add: pipe_left_def)
  qed
qed

lemma other_step_left:
  assumes "other_step cpu s s'" "sy_flag (pp_world s)"
  shows "sy_flag (pp_world s') \<and> pipe_left s' = pipe_left s"
  using assms(1)
proof (cases rule: other_step.cases)
  case (env w' m')
  have "sy_flag w'" using assms(2) sys_env_worker(2) env(2) by (auto simp: keeps_flag_def)
  moreover have "sy_chan w' = sy_chan (pp_world s)" using env_reopened [OF env(2,3)] by blast
  moreover have "steps_left id (pp_pc s, (pp_st s)\<lparr>vs_world := w', vs_metrics := m'\<rparr>)
      = steps_left id (pp_pc s, pp_st s)"
    by (cases "pp_pc s") simp_all
  ultimately show ?thesis using env(1) by (simp add: pipe_left_def)
qed

lemma pipe_run_left:
  assumes "pipe_run cpu j s s'" "pipe_inv k m cpu s" "sy_flag (pp_world s)"
    and k: "fresh_kernel k" "metrics_wf m" "cpu < NCPU"
  shows "sy_flag (pp_world s') \<and> pipe_left s' + j \<le> pipe_left s"
  using assms(1-3)
proof (induction rule: pipe_run.induct)
  case (init s)
  then show ?case by simp
next
  case (thread j s s' s'')
  have "pipe_inv k m cpu s'" using pipe_run_inv [OF thread(1,4) k] .
  from thread_step_left [OF this thread(2) k] thread show ?case by simp
next
  case (other j s s' s'')
  then show ?case using other_step_left [OF other(2)] by simp
qed

lemma pipe_left_bound:
  assumes "pipe_inv k m cpu s" and k: "fresh_kernel k" "metrics_wf m" "cpu < NCPU"
  shows "pipe_left s \<le> 2058"
proof -
  obtain n where run: "sys_run k m cpu n (pp_pc s, (pp_st s)\<lparr>vs_world := reopened (pp_world s)\<rparr>)"
    using assms(1) by (auto simp: pipe_inv_def)
  have wf: "batch_room id (pp_pc s, (pp_st s)\<lparr>vs_world := reopened (pp_world s)\<rparr>)"
    and "length (ch_queue (sy_chan (pp_world s))) \<le> 1024"
    using run_wf [OF run k] by (auto simp: sys_inv_def reopened_def DISPATCH_CAPACITY_def BATCH_SIZE_def)
  moreover have "steps_left id (pp_pc s, pp_st s) \<le> 516"
    using wf by (cases "pp_pc s") (auto simp: batch_room_def BATCH_SIZE_def)
  ultimately show ?thesis by (simp add: pipe_left_def)
qed

text \<open>As long as the consumer runs, one of the two threads can make a step.\<close>

lemma thread_enabled:
  assumes "pipe_inv k m cpu s" "ConsumerThread \<in> pp_live s"
  shows "\<exists>s'. thread_step cpu s s'"
proof (cases "WorkerThread \<in> pp_live s")
  case True
  obtain p' st' where "wstep sys_api vec_api cpu (pp_pc s, pp_st s) = (p', st')"
    by (cases "wstep sys_api vec_api cpu (pp_pc s, pp_st s)")
  with True show ?thesis by (cases "pp_pc s = Stopped") (blast intro: thread_step.intros)+
next
  case False
  then have "pp_tx s = []" using assms(1) by (simp add: pipe_inv_def pipe_threads_def)
  then have "consumer_turn (chan_recv (pp_tx s)) (pp_world s) \<noteq> None"
    using cr.turn_blocks_iff by simp
  then obtain w' go where "consumer_turn (chan_recv (pp_tx s)) (pp_world s) = Some (w', go)" by auto
  with assms(2) show ?thesis by (blast intro: thread_step.consume)
qed

lemma ended_accounts:
  assumes "pipe_inv k m cpu s" "ConsumerThread \<notin> pp_live s" and k: "fresh_kernel k" "metrics_wf m" "cpu < NCPU"
    and w: "w = pp_world s"
  shows "WorkerThread \<notin> pp_live s \<and> ch_queue (sy_chan w) = [] \<and> sy_recv w = ch_sent (sy_chan w)
    \<and> (\<exists>dropped refused. own_count m (vs_metrics (pp_st s)) cpu (length (sy_recv w)) dropped refused
        \<and> dropped = length (sy_taken w) - length (accepted 0 (sy_taken w))
        \<and> length (sy_taken w) = length (sy_recv w) + dropped + refused)"
proof -
  have th: "WorkerThread \<notin> pp_live s" "pp_pc s = Stopped" "ch_queue (sy_chan w) = []"
    using assms(1,2) w by (auto simp: pipe_inv_def pipe_threads_def)
  obtain n where run: "sys_run k m cpu n (Stopped, (pp_st s)\<lparr>vs_world := reopened w\<rparr>)"
    using assms(1) th(2) w by (auto simp: pipe_inv_def)
  obtain offered outs where
    acc: "accepted 0 (sy_taken w) = offered" and sent: "sy_recv w = delivered offered outs"
    and len: "length outs = length offered"
    and m: "own_count m (vs_metrics (pp_st s)) cpu (count_list outs (Inr ()))
        (length (sy_taken w) - length (accepted 0 (sy_taken w))) (count_list outs (Inl Full))"
    and disc: "Inl Disconnected \<notin> set outs" and i: "sys_inv (reopened w)"
    using sys_accounting [OF run k] th(3) by auto
  have n: "length (sy_recv w) = count_list outs (Inr ())"
    using length_delivered [OF len [symmetric]] by (simp only: sent)
  have "count_list outs (Inl Disconnected) = 0" using disc by (simp add: count_list_0_iff)
  then have "length (sy_taken w) = length (sy_recv w)
      + (length (sy_taken w) - length (accepted 0 (sy_taken w))) + count_list outs (Inl Full)"
    using n count_outcomes [of outs] length_accepted [of 0 "sy_taken w"] len acc by simp
  then show ?thesis
    using th i m n by (auto simp: sys_inv_def)
qed

text \<open>
  C6. How a pipeline ends. Once the consumer thread has returned, the worker has returned
  before it, the channel is empty, the consumer has received every frame that was sent, in
  order, and of the records the worker read those received, those counted as dropped and those
  counted as refused are all. And it does end: from any moment at which the shutdown flag is
  up, whatever the kernel does, the two threads make at most 2058 more steps between them, and
  as long as the consumer has not returned one of them can make a step.
\<close>
theorem run_ends_drained:
  assumes run: "pipe_run cpu i (open_pipeline k m) s" and k: "fresh_kernel k" "metrics_wf m" "cpu < NCPU"
    and w: "w = pp_world s"
  shows "(ConsumerThread \<notin> pp_live s \<longrightarrow>
      WorkerThread \<notin> pp_live s \<and> ch_queue (sy_chan w) = [] \<and> sy_recv w = ch_sent (sy_chan w)
      \<and> (\<exists>dropped refused. own_count m (vs_metrics (pp_st s)) cpu (length (sy_recv w)) dropped refused
          \<and> dropped = length (sy_taken w) - length (accepted 0 (sy_taken w))
          \<and> length (sy_taken w) = length (sy_recv w) + dropped + refused))
    \<and> (sy_flag w \<longrightarrow> (\<forall>j s'. pipe_run cpu j s s' \<longrightarrow>
        j \<le> 2058 \<and> (ConsumerThread \<in> pp_live s' \<longrightarrow> (\<exists>s''. thread_step cpu s' s''))))"
proof (intro conjI impI allI)
  note i = pipe_run_inv [OF run open_pipeline_inv k]
  assume "ConsumerThread \<notin> pp_live s"
  note e = ended_accounts [OF i this k w]
  show "WorkerThread \<notin> pp_live s" "ch_queue (sy_chan w) = []" "sy_recv w = ch_sent (sy_chan w)"
    "\<exists>dropped refused. own_count m (vs_metrics (pp_st s)) cpu (length (sy_recv w)) dropped refused
      \<and> dropped = length (sy_taken w) - length (accepted 0 (sy_taken w))
      \<and> length (sy_taken w) = length (sy_recv w) + dropped + refused"
    using e by blast+
next
  fix j s' assume up: "sy_flag w" and more: "pipe_run cpu j s s'"
  note i = pipe_run_inv [OF run open_pipeline_inv k]
  show "j \<le> 2058"
    using pipe_run_left [OF more i _ k] pipe_left_bound [OF i k] up w by simp
  assume "ConsumerThread \<in> pp_live s'"
  then show "\<exists>s''. thread_step cpu s' s''"
    by (rule thread_enabled [OF pipe_run_inv [OF more i k]])
qed

section \<open>A run to the end\<close>

text \<open>Every run of \<open>SG_System\<close> is one of the pipeline, with both threads alive.\<close>

definition running :: "pc \<times> (sys, signal_frame list) vac_state \<Rightarrow> pipe" where
  "running s = \<lparr>pp_pc = fst s, pp_st = snd s, pp_tx = [WorkerThread], pp_rx = [ConsumerThread],
     pp_live = {WorkerThread, ConsumerThread}\<rparr>"

lemma running_sel [simp]:
  "pp_pc (running s) = fst s" "pp_st (running s) = snd s" "pp_tx (running s) = [WorkerThread]"
  "pp_rx (running s) = [ConsumerThread]" "pp_live (running s) = {WorkerThread, ConsumerThread}"
  by (simp_all add: running_def)

lemma running_work: "fst s \<noteq> Stopped \<Longrightarrow> thread_step cpu (running s) (running (wstep sys_api vec_api cpu s))"
  using thread_step.work [of "running s" cpu "fst (wstep sys_api vec_api cpu s)"
      "snd (wstep sys_api vec_api cpu s)"]
  by (simp add: running_def)

lemma running_receive:
  "ch_queue (sy_chan (vs_world st)) = f # fs \<Longrightarrow>
   thread_step cpu (running (p, st)) (running (p, st\<lparr>vs_world := (vs_world st)
     \<lparr>sy_chan := (sy_chan (vs_world st))\<lparr>ch_queue := fs\<rparr>, sy_recv := sy_recv (vs_world st) @ [f]\<rparr>\<rparr>))"
  using thread_step.consume [of "running (p, st)" "(vs_world st)
     \<lparr>sy_chan := (sy_chan (vs_world st))\<lparr>ch_queue := fs\<rparr>, sy_recv := sy_recv (vs_world st) @ [f]\<rparr>" True cpu]
  by (simp add: consumer_turn_def chan_recv_def) (simp add: running_def set_world_def)

lemma running_env:
  "sys_env (vs_world st) w' \<Longrightarrow> sy_recv w' = sy_recv (vs_world st) \<Longrightarrow>
   own_count (vs_metrics st) m' cpu 0 0 0 \<Longrightarrow>
   other_step cpu (running (p, st)) (running (p, st\<lparr>vs_world := w', vs_metrics := m'\<rparr>))"
  using other_step.env [of "running (p, st)" w' m' cpu] by (simp add: running_def)

lemma sys_env_refl: "sys_env w w"
  using sys_env.tick [of w "ks_now (sy_kernel w)"] by simp

lemma running_open: "open_pipeline k m = running (AtCheck, sys_start k m)"
  by (auto simp: open_pipeline_def start_worker_def start_consumer_def create_channel_def
      dispatch_channel_def running_def)

lemma run_is_pipe_run:
  assumes "sys_run k m cpu n s"
  shows "\<exists>j. pipe_run cpu j (open_pipeline k m) (running s)"
  using assms
proof (induction n "(AtCheck, sys_start k m)" s rule: interleaved.induct)
  case start
  then show ?case unfolding running_open by (blast intro: pipe_run.init)
next
  case (work n s)
  then obtain j where j: "pipe_run cpu j (open_pipeline k m) (running s)" by blast
  show ?case
  proof (cases "fst s = Stopped")
    case True
    then have "wstep sys_api vec_api cpu s = s" by (cases s) simp
    with j show ?thesis by auto
  next
    case False
    then show ?thesis using pipe_run.thread [OF j running_work] by blast
  qed
next
  case (others n p st w' m')
  then obtain j where j: "pipe_run cpu j (open_pipeline k m) (running (p, st))" by blast
  show ?case
  proof (cases "sy_recv w' = sy_recv (vs_world st)")
    case True
    then show ?thesis using pipe_run.other [OF j running_env] others by blast
  next
    case False
    with others(3) obtain f fs where q: "ch_queue (sy_chan (vs_world st)) = f # fs"
      and w': "w' = (vs_world st)\<lparr>sy_chan := (sy_chan (vs_world st))\<lparr>ch_queue := fs\<rparr>,
        sy_recv := sy_recv (vs_world st) @ [f]\<rparr>"
      by (cases rule: sys_env.cases) auto
    have "pipe_run cpu (Suc j) (open_pipeline k m) (running (p, st\<lparr>vs_world := w'\<rparr>))"
      unfolding w' by (rule pipe_run.thread [OF j running_receive [OF q]])
    from pipe_run.other [OF this running_env [of "st\<lparr>vs_world := w'\<rparr>" w' m', OF _ _]] others(4)
    show ?thesis by (auto simp: sys_env_refl)
  qed
qed

text \<open>
  The run of one frame: the flag goes up while the worker is reading, the worker sends what it
  has and returns, then the consumer takes the frame and returns.
\<close>

definition one_frame_signalled :: "(sys, signal_frame list) vac_state" where
  "one_frame_signalled =
     one_frame_taken\<lparr>vs_world := (vs_world one_frame_taken)\<lparr>sy_flag := True\<rparr>, vs_metrics := metrics_new\<rparr>"

lemma one_frame_stopped:
  "\<exists>n st. sys_run (race_kernel 10 0 {} []) metrics_new 0 n (Stopped, st)
     \<and> ch_queue (sy_chan (vs_world st)) = [race_frame 10 0] \<and> ch_sent (sy_chan (vs_world st)) = [race_frame 10 0]"
proof -
  let ?k = "race_kernel 10 0 {} []"
  have "own_count (vs_metrics one_frame_taken) metrics_new 0 0 0 0"
    by (simp add: one_frame_taken_def own_count_refl)
  then have up: "sys_run ?k metrics_new 0 2 (Draining 255, one_frame_signalled)"
    unfolding one_frame_signalled_def by (rule interleaved.others [OF one_frame_taken sys_env.signal])
  have "sys_run ?k metrics_new 0 (Suc (Suc (Suc (Suc (Suc 2)))))
      (wstep sys_api vec_api 0 (wstep sys_api vec_api 0 (wstep sys_api vec_api 0
        (wstep sys_api vec_api 0 (wstep sys_api vec_api 0 (Draining 255, one_frame_signalled))))))"
    by (intro interleaved.work up)
  moreover have "\<exists>st. wstep sys_api vec_api 0 (wstep sys_api vec_api 0 (wstep sys_api vec_api 0
        (wstep sys_api vec_api 0 (wstep sys_api vec_api 0 (Draining 255, one_frame_signalled))))) = (Stopped, st)
      \<and> ch_queue (sy_chan (vs_world st)) = [race_frame 10 0] \<and> ch_sent (sy_chan (vs_world st)) = [race_frame 10 0]"
    by (simp add: one_frame_signalled_def one_frame_taken_def one_frame_world_def sys_init_def chan_new_def
        wstep_draining start_dispatch_def try_dispatch_def chan_try_send_def DISPATCH_CAPACITY_def BATCH_SIZE_def)
  ultimately show ?thesis by (metis (no_types))
qed

lemma one_frame_ended:
  "\<exists>j s. pipe_run 0 j (open_pipeline (race_kernel 10 0 {} []) metrics_new) s
     \<and> ConsumerThread \<notin> pp_live s \<and> ch_sent (sy_chan (pp_world s)) = [race_frame 10 0]"
proof -
  let ?s0 = "open_pipeline (race_kernel 10 0 {} []) metrics_new"
  obtain n st where run: "sys_run (race_kernel 10 0 {} []) metrics_new 0 n (Stopped, st)"
    and q: "ch_queue (sy_chan (vs_world st)) = [race_frame 10 0]" "ch_sent (sy_chan (vs_world st)) = [race_frame 10 0]"
    using one_frame_stopped by blast
  let ?s1 = "running (Stopped, st)" and ?s2 = "end_thread WorkerThread (running (Stopped, st))"
  let ?w3 = "(pp_world ?s2)\<lparr>sy_chan := (sy_chan (pp_world ?s2))\<lparr>ch_queue := []\<rparr>,
    sy_recv := sy_recv (pp_world ?s2) @ [race_frame 10 0]\<rparr>"
  let ?s3 = "set_world ?w3 ?s2"
  obtain j where "pipe_run 0 j ?s0 ?s1" using run_is_pipe_run [OF run] by blast
  then have r2: "pipe_run 0 (Suc j) ?s0 ?s2"
    by (rule pipe_run.thread) (simp add: thread_step.return)
  have "thread_step 0 ?s2 (if True then ?s3 else end_thread ConsumerThread ?s3)"
    by (rule thread_step.consume) (simp_all add: consumer_turn_def chan_recv_def q)
  then have r3: "pipe_run 0 (Suc (Suc j)) ?s0 ?s3" using pipe_run.thread [OF r2] by simp
  have "thread_step 0 ?s3 (if False then set_world ?w3 ?s3 else end_thread ConsumerThread (set_world ?w3 ?s3))"
    by (rule thread_step.consume) (simp_all add: consumer_turn_def chan_recv_def)
  from pipe_run.thread [OF r3 this] show ?thesis
    by (intro exI conjI) (assumption, simp_all add: q)
qed

theorem run_ends_drained_witness:
  "\<exists>j s. pipe_run 0 j (open_pipeline (race_kernel 10 0 {} []) metrics_new) s
     \<and> ConsumerThread \<notin> pp_live s \<and> WorkerThread \<notin> pp_live s \<and> sy_recv (pp_world s) = [race_frame 10 0]"
proof -
  obtain j s where r: "pipe_run 0 j (open_pipeline (race_kernel 10 0 {} []) metrics_new) s"
    "ConsumerThread \<notin> pp_live s" "ch_sent (sy_chan (pp_world s)) = [race_frame 10 0]"
    using one_frame_ended by blast
  have m: "metrics_wf metrics_new" "0 < NCPU" by (simp_all add: NCPU_def)
  from run_ends_drained [OF r(1) fresh_race m refl] r show ?thesis by auto
qed

end
