(* ===== verification/SG_PerCpuRing.thy ===== *)
theory SG_PerCpuRing
  imports SG_Frame
begin

text \<open>
  \<^verbatim>\<open>sg-capture/src/percpu_ring.rs\<close>: the table of per-CPU ring handles, an array of
  \<^verbatim>\<open>NCPU\<close> optional handles. What \<^verbatim>\<open>get_mut\<close> returns is the slot's value; no code
  of the repository writes through the reference.
\<close>

section \<open>The code\<close>

record 'r ring_table =
  handles :: "'r option list"

definition ring_table_new :: "'r option list \<Rightarrow> 'r ring_table" where
  "ring_table_new hs = \<lparr>handles = hs\<rparr>"

definition get_mut :: "'r ring_table \<Rightarrow> nat \<Rightarrow> 'r option" where
  "get_mut t cpu = (if cpu \<ge> NCPU then None else handles t ! cpu)"

definition populated_count :: "'r ring_table \<Rightarrow> nat" where
  "populated_count t = length (filter (\<lambda>h. h \<noteq> None) (handles t))"

text \<open>The array type fixes the length.\<close>

definition table_wf :: "'r ring_table \<Rightarrow> bool" where
  "table_wf t \<longleftrightarrow> length (handles t) = NCPU"

section \<open>Lookup and count\<close>

text \<open>
  On a table built from \<^verbatim>\<open>NCPU\<close> handles the lookup never goes out of bounds, and the
  populated count is the number of CPUs whose lookup succeeds.
\<close>

lemma get_mut_new:
  "length hs = NCPU \<Longrightarrow> get_mut (ring_table_new hs) c = (if c < NCPU then hs ! c else None)"
  by (simp add: get_mut_def ring_table_new_def)

lemma populated_count_card:
  assumes "table_wf t"
  shows "populated_count t = card {c. get_mut t c \<noteq> None} \<and> populated_count t \<le> NCPU"
proof -
  have "{c. get_mut t c \<noteq> None} = {i. i < length (handles t) \<and> handles t ! i \<noteq> None}"
    using assms by (auto simp: get_mut_def table_wf_def split: if_splits)
  then have "populated_count t = card {c. get_mut t c \<noteq> None}"
    by (simp add: populated_count_def length_filter_conv_card)
  moreover have "populated_count t \<le> NCPU"
    using assms by (simp add: populated_count_def table_wf_def length_filter_le [THEN order_trans])
  ultimately show ?thesis by simp
qed

end
