(* ===== verification/SG_Loader.thy ===== *)
theory SG_Loader
  imports SG_PerCpuRing
begin

text \<open>
  \<^verbatim>\<open>sg-capture/src/loader.rs\<close>: loading the kernel object, attaching it to an interface
  with the fall-back from driver to generic mode, handing out the ring handle, detaching.
  The file system and aya are operations over a world, taken as an argument; an
  \<^verbatim>\<open>Ebpf\<close> value is threaded where the code borrows it mutably. Every \<^verbatim>\<open>?\<close> and
  \<^verbatim>\<open>bail!\<close> is a constructor of the error type that names the context message's step.
\<close>

section \<open>Interface of aya and the file system\<close>

datatype xdp_flags = DRV_MODE | SKB_MODE

record ('w, 'e, 'm, 'r, 'l) loader_api =
  path_exists :: "'w \<Rightarrow> string \<Rightarrow> bool"
  read_file :: "'w \<Rightarrow> string \<Rightarrow> string + u8 list"
  ebpf_load :: "'w \<Rightarrow> u8 list \<Rightarrow> 'w \<times> (string + 'e)"
  logger_init :: "'w \<Rightarrow> 'e \<Rightarrow> 'w \<times> 'e \<times> (string + unit)"
  program_kind :: "'e \<Rightarrow> string \<Rightarrow> (string + unit) option"
  program_load :: "'w \<Rightarrow> 'e \<Rightarrow> 'w \<times> 'e \<times> (string + unit)"
  program_attach :: "'w \<Rightarrow> 'e \<Rightarrow> string \<Rightarrow> xdp_flags \<Rightarrow> 'w \<times> 'e \<times> (string + 'l)"
  take_map :: "'e \<Rightarrow> string \<Rightarrow> 'e \<times> 'm option"
  ring_try_from :: "'w \<Rightarrow> 'm \<Rightarrow> 'w \<times> (string + 'r)"
  program_detach :: "'w \<Rightarrow> 'e \<Rightarrow> 'l \<Rightarrow> 'w \<times> 'e \<times> (string + unit)"
  drop_ebpf :: "'w \<Rightarrow> 'e \<Rightarrow> 'w"

text \<open>
  \<open>program_kind\<close> is \<^verbatim>\<open>program_mut\<close> (the option) with the \<^verbatim>\<open>try_into\<close> to an XDP
  program (the sum). \<open>drop_ebpf\<close> is the destructor that runs when an \<^verbatim>\<open>Ebpf\<close> value
  goes out of scope.
\<close>

section \<open>The code\<close>

definition EBPF_OBJECT_PATH :: string where
  "EBPF_OBJECT_PATH = ''target/bpfel-unknown-none/release/sg-ebpf''"

definition XDP_PROGRAM_NAME :: string where
  "XDP_PROGRAM_NAME = ''xdp_ingress''"

definition RING_MAP_NAME :: string where
  "RING_MAP_NAME = ''SIGNAL_RING''"

datatype load_error =
    ObjectNotFound
  | ReadFailed string
  | ParseFailed string
  | ProgramNotFound
  | NotXdp string
  | VerifierRejected string
  | AttachFailed string
  | NotRingBuf string
  | MapNotFound

datatype detach_error =
    DetachNoProgram
  | DetachWrongType string
  | DetachFailed string

record ('e, 'l) loaded_probe =
  lp_ebpf :: 'e
  lp_iface :: string
  lp_link :: 'l

text \<open>\<^verbatim>\<open>build_ring_handles\<close>: a vector of \<^verbatim>\<open>None\<close>s, slot 0 filled from the global ring map.\<close>

definition build_ring_handles ::
  "('w, 'e, 'm, 'r, 'l) loader_api \<Rightarrow> 'w \<Rightarrow> 'e \<Rightarrow> 'w \<times> 'e \<times> (load_error + 'r option list)" where
  "build_ring_handles api w e =
     (let hs = replicate 32 None in
      case take_map api e ''SIGNAL_RING'' of
        (e', Some m) \<Rightarrow>
          (case ring_try_from api w m of
             (w', Inl err) \<Rightarrow> (w', e', Inl (NotRingBuf err))
           | (w', Inr ring) \<Rightarrow> (w', e', Inr (hs[0 := Some ring])))
      | (e', None) \<Rightarrow> (w, e', Inl MapNotFound))"

text \<open>The \<^verbatim>\<open>match\<close> on the first attachment, with the fall-back.\<close>

definition attach_xdp ::
  "('w, 'e, 'm, 'r, 'l) loader_api \<Rightarrow> 'w \<Rightarrow> 'e \<Rightarrow> string \<Rightarrow> 'w \<times> 'e \<times> (load_error + 'l)" where
  "attach_xdp api w e iface =
     (case program_attach api w e iface DRV_MODE of
        (w', e', Inr l) \<Rightarrow> (w', e', Inr l)
      | (w', e', Inl _) \<Rightarrow>
          (case program_attach api w' e' iface SKB_MODE of
             (w'', e'', Inr l) \<Rightarrow> (w'', e'', Inr l)
           | (w'', e'', Inl err) \<Rightarrow> (w'', e'', Inl (AttachFailed err))))"

text \<open>
  \<^verbatim>\<open>load_and_attach\<close>. An early return after the object is loaded drops the
  \<^verbatim>\<open>Ebpf\<close> value.
\<close>

definition load_and_attach ::
  "('w, 'e, 'm, 'r, 'l) loader_api \<Rightarrow> 'w \<Rightarrow> string \<Rightarrow>
   'w \<times> (load_error + ('e, 'l) loaded_probe \<times> 'r option list)" where
  "load_and_attach api w iface =
     (if \<not> path_exists api w EBPF_OBJECT_PATH then (w, Inl ObjectNotFound)
      else case read_file api w EBPF_OBJECT_PATH of
        Inl err \<Rightarrow> (w, Inl (ReadFailed err))
      | Inr bytes \<Rightarrow>
          (case ebpf_load api w bytes of
             (w, Inl err) \<Rightarrow> (w, Inl (ParseFailed err))
           | (w, Inr e) \<Rightarrow>
               (case logger_init api w e of (w, e, _) \<Rightarrow>
                 (case program_kind api e XDP_PROGRAM_NAME of
                    None \<Rightarrow> (drop_ebpf api w e, Inl ProgramNotFound)
                  | Some (Inl err) \<Rightarrow> (drop_ebpf api w e, Inl (NotXdp err))
                  | Some (Inr _) \<Rightarrow>
                      (case program_load api w e of
                         (w, e, Inl err) \<Rightarrow> (drop_ebpf api w e, Inl (VerifierRejected err))
                       | (w, e, Inr _) \<Rightarrow>
                           (case attach_xdp api w e iface of
                              (w, e, Inl err) \<Rightarrow> (drop_ebpf api w e, Inl err)
                            | (w, e, Inr l) \<Rightarrow>
                                (case build_ring_handles api w e of
                                   (w, e, Inl err) \<Rightarrow> (drop_ebpf api w e, Inl err)
                                 | (w, e, Inr hs) \<Rightarrow>
                                     (w, Inr (\<lparr>lp_ebpf = e, lp_iface = iface, lp_link = l\<rparr>, hs)))))))))"

definition detach ::
  "('w, 'e, 'm, 'r, 'l) loader_api \<Rightarrow> 'w \<Rightarrow> ('e, 'l) loaded_probe \<Rightarrow> 'w \<times> (detach_error + unit)" where
  "detach api w probe =
     (let e = lp_ebpf probe in
      case program_kind api e XDP_PROGRAM_NAME of
        None \<Rightarrow> (drop_ebpf api w e, Inl DetachNoProgram)
      | Some (Inl err) \<Rightarrow> (drop_ebpf api w e, Inl (DetachWrongType err))
      | Some (Inr _) \<Rightarrow>
          (case program_detach api w e (lp_link probe) of
             (w, e, Inl err) \<Rightarrow> (drop_ebpf api w e, Inl (DetachFailed err))
           | (w, e, Inr _) \<Rightarrow> (drop_ebpf api w e, Inr ())))"

section \<open>The tail of the loader\<close>

text \<open>The steps of \<open>load_and_attach\<close> from \<^verbatim>\<open>program.load()\<close> on, for the case analysis.\<close>

definition attach_and_build ::
  "('w, 'e, 'm, 'r, 'l) loader_api \<Rightarrow> 'w \<Rightarrow> 'e \<Rightarrow> string \<Rightarrow>
   'w \<times> (load_error + ('e, 'l) loaded_probe \<times> 'r option list)" where
  "attach_and_build api w e iface =
     (case program_load api w e of
        (w, e, Inl err) \<Rightarrow> (drop_ebpf api w e, Inl (VerifierRejected err))
      | (w, e, Inr _) \<Rightarrow>
          (case attach_xdp api w e iface of
             (w, e, Inl err) \<Rightarrow> (drop_ebpf api w e, Inl err)
           | (w, e, Inr l) \<Rightarrow>
               (case build_ring_handles api w e of
                  (w, e, Inl err) \<Rightarrow> (drop_ebpf api w e, Inl err)
                | (w, e, Inr hs) \<Rightarrow> (w, Inr (\<lparr>lp_ebpf = e, lp_iface = iface, lp_link = l\<rparr>, hs)))))"

text \<open>What the ring lookup makes of an attached program.\<close>

definition built ::
  "('w, 'e, 'm, 'r, 'l) loader_api \<Rightarrow> 'w \<Rightarrow> 'e \<Rightarrow> string \<Rightarrow> 'l \<Rightarrow> 'w \<Rightarrow>
   load_error + ('e, 'l) loaded_probe \<times> 'r option list \<Rightarrow> bool" where
  "built api w e iface l w' res \<longleftrightarrow>
     (case build_ring_handles api w e of
        (w3, e3, Inl err) \<Rightarrow> w' = drop_ebpf api w3 e3 \<and> res = Inl err
      | (w3, e3, Inr hs) \<Rightarrow>
          w' = w3 \<and> res = Inr (\<lparr>lp_ebpf = e3, lp_iface = iface, lp_link = l\<rparr>, hs))"

text \<open>The errors that can only come after the hook is in place.\<close>

definition after_attach :: "load_error \<Rightarrow> bool" where
  "after_attach err \<longleftrightarrow> err = MapNotFound \<or> (\<exists>s. err = NotRingBuf s)"

lemma attach_xdp_error: "attach_xdp api w e iface = (w', e', Inl err) \<Longrightarrow> \<exists>s. err = AttachFailed s"
  by (auto simp: attach_xdp_def split: prod.splits sum.splits)

lemma build_ring_handles_result:
  assumes "build_ring_handles api w e = (w', e', res)"
  shows "case res of Inl err \<Rightarrow> after_attach err | Inr hs \<Rightarrow> \<exists>r. hs = Some r # replicate 31 None"
  using assms
  by (auto simp: build_ring_handles_def after_attach_def Let_def numeral_eq_Suc
      split: prod.splits option.splits sum.splits)

section \<open>The contract of aya\<close>

text \<open>
  \<open>hook w i\<close> is the link attached to interface \<open>i\<close>, \<open>owns e\<close> the links an
  \<^verbatim>\<open>Ebpf\<close> value manages. Attaching succeeds on a free interface with a fresh link;
  detaching removes exactly that link; a destructor touches no link of another owner (what it
  does with its own is left open); no other operation changes hooks or hides the program.
\<close>

locale xdp_hooks =
  fixes api :: "('w, 'e, 'm, 'r, 'l) loader_api"
    and hook :: "'w \<Rightarrow> string \<Rightarrow> 'l option"
    and owns :: "'e \<Rightarrow> 'l set"
  assumes load_fresh: "ebpf_load api w bs = (w', Inr e) \<Longrightarrow> owns e = {}"
    and load_hook: "ebpf_load api w bs = (w', res) \<Longrightarrow> hook w' = hook w"
    and logger_keeps: "logger_init api w e = (w', e', lres) \<Longrightarrow> hook w' = hook w \<and> owns e' = owns e"
    and program_keeps: "program_load api w e = (w', e', pres) \<Longrightarrow>
      hook w' = hook w \<and> owns e' = owns e \<and> program_kind api e' = program_kind api e"
    and attach_ok: "program_attach api w e i fl = (w', e', Inr l) \<Longrightarrow>
      hook w i = None \<and> (\<forall>j. hook w j \<noteq> Some l) \<and> hook w' = (hook w)(i \<mapsto> l) \<and>
      owns e' = insert l (owns e) \<and> program_kind api e' = program_kind api e"
    and attach_err: "program_attach api w e i fl = (w', e', Inl err) \<Longrightarrow>
      hook w' = hook w \<and> owns e' = owns e \<and> program_kind api e' = program_kind api e"
    and map_keeps: "take_map api e n = (e', mo) \<Longrightarrow>
      owns e' = owns e \<and> program_kind api e' = program_kind api e"
    and ring_keeps: "ring_try_from api w m = (w', rres) \<Longrightarrow> hook w' = hook w"
    and detach_ok: "program_detach api w e l = (w', e', Inr ()) \<Longrightarrow>
      hook w' = (\<lambda>i. if hook w i = Some l then None else hook w i) \<and> owns e' = owns e - {l}"
    and detach_err: "program_detach api w e l = (w', e', Inl err) \<Longrightarrow> hook w' = hook w"
    and drop_keeps: "hook w i = Some l \<Longrightarrow> l \<notin> owns e \<Longrightarrow> hook (drop_ebpf api w e) i = Some l"
    and drop_none: "hook w i = None \<Longrightarrow> hook (drop_ebpf api w e) i = None"
begin

lemma drop_unowned: "(\<And>i l. hook w i = Some l \<Longrightarrow> l \<notin> owns e) \<Longrightarrow> hook (drop_ebpf api w e) = hook w"
  by (rule ext, case_tac "hook w x") (auto simp: drop_keeps drop_none)

lemma drop_empty: "owns e = {} \<Longrightarrow> hook (drop_ebpf api w e) = hook w"
  by (rule drop_unowned) simp

lemma attach_xdp_spec:
  assumes "attach_xdp api w e iface = (w', e', res)"
  shows "program_kind api e' = program_kind api e \<and>
    (case res of
       Inl _ \<Rightarrow> hook w' = hook w \<and> owns e' = owns e
     | Inr l \<Rightarrow> hook w iface = None \<and> (\<forall>j. hook w j \<noteq> Some l) \<and> hook w' = (hook w)(iface \<mapsto> l) \<and>
         owns e' = insert l (owns e))"
proof -
  obtain w1 e1 r1 where a1: "program_attach api w e iface DRV_MODE = (w1, e1, r1)"
    by (cases "program_attach api w e iface DRV_MODE") auto
  show ?thesis
  proof (cases r1)
    case (Inr l)
    with a1 assms attach_ok [of w e iface DRV_MODE w1 e1 l] show ?thesis
      by (auto simp: attach_xdp_def)
  next
    case (Inl err)
    obtain w2 e2 r2 where a2: "program_attach api w1 e1 iface SKB_MODE = (w2, e2, r2)"
      by (cases "program_attach api w1 e1 iface SKB_MODE") auto
    have k: "hook w1 = hook w" "owns e1 = owns e" "program_kind api e1 = program_kind api e"
      using attach_err a1 Inl by blast+
    show ?thesis
    proof (cases r2)
      case (Inr l)
      with a2 have "program_attach api w1 e1 iface SKB_MODE = (w2, e2, Inr l)" by simp
      from attach_ok [OF this] a1 a2 assms Inl Inr k show ?thesis
        by (auto simp: attach_xdp_def)
    next
      case (Inl err2)
      with a2 have "program_attach api w1 e1 iface SKB_MODE = (w2, e2, Inl err2)" by simp
      from attach_err [OF this] a1 a2 assms \<open>r1 = Inl err\<close> Inl k show ?thesis
        by (auto simp: attach_xdp_def)
    qed
  qed
qed

lemma build_ring_handles_spec:
  assumes "build_ring_handles api w e = (w', e', res)"
  shows "hook w' = hook w \<and> owns e' = owns e \<and> program_kind api e' = program_kind api e"
  using assms map_keeps ring_keeps
  by (auto simp: build_ring_handles_def Let_def split: prod.splits option.splits sum.splits)

lemma attach_and_build_steps:
  assumes "attach_and_build api w e iface = (w', res)" "owns e = {}"
    and kind: "\<exists>u. program_kind api e XDP_PROGRAM_NAME = Some (Inr u)"
  shows "(\<exists>err. res = Inl err \<and> \<not> after_attach err \<and> hook w' = hook w) \<or>
    (\<exists>w1 e1 w2 e2 l. hook w1 = hook w \<and> owns e1 = {} \<and>
      (\<exists>u. program_kind api e1 XDP_PROGRAM_NAME = Some (Inr u)) \<and>
      attach_xdp api w1 e1 iface = (w2, e2, Inr l) \<and>
      built api w2 e2 iface l w' res)"
proof -
  obtain w1 e1 r1 where pl: "program_load api w e = (w1, e1, r1)"
    by (cases "program_load api w e") auto
  have k1: "hook w1 = hook w" "owns e1 = {}" "\<exists>u. program_kind api e1 XDP_PROGRAM_NAME = Some (Inr u)"
    using program_keeps [OF pl] assms(2) kind by simp_all
  show ?thesis
  proof (cases r1)
    case (Inl err)
    then have "w' = drop_ebpf api w1 e1" "res = Inl (VerifierRejected err)"
      using assms(1) pl by (simp_all add: attach_and_build_def)
    then show ?thesis
      using k1(1) drop_empty [OF k1(2)]
      by (intro disjI1 exI [of _ "VerifierRejected err"]) (simp add: after_attach_def)
  next
    case (Inr u)
    obtain w2 e2 r2 where ax: "attach_xdp api w1 e1 iface = (w2, e2, r2)"
      by (cases "attach_xdp api w1 e1 iface") auto
    show ?thesis
    proof (cases r2)
      case (Inl err)
      have "hook w2 = hook w" "owns e2 = {}"
        using attach_xdp_spec [OF ax] Inl k1 by simp_all
      moreover have "\<not> after_attach err"
        using attach_xdp_error [of api w1 e1 iface w2 e2 err] ax Inl by (auto simp: after_attach_def)
      moreover have "w' = drop_ebpf api w2 e2" "res = Inl err"
        using assms(1) pl \<open>r1 = Inr u\<close> ax Inl by (simp_all add: attach_and_build_def)
      ultimately show ?thesis
        using drop_empty [of e2 w2] by (intro disjI1 exI [of _ err]) simp
    next
      case l: (Inr l)
      have "built api w2 e2 iface l w' res"
        using assms pl Inr ax l
        by (simp add: attach_and_build_def built_def split: prod.splits sum.splits)
      with k1 ax l show ?thesis
        by (intro disjI2 exI [of _ w1] exI [of _ e1] exI [of _ w2] exI [of _ e2] exI [of _ l]) simp
    qed
  qed
qed

text \<open>The path to a successful attachment, or the early error that ended before it.\<close>

lemma load_and_attach_steps:
  assumes "load_and_attach api w iface = (w', res)"
  shows "(\<exists>err. res = Inl err \<and> \<not> after_attach err \<and> hook w' = hook w) \<or>
    (\<exists>w1 e1 w2 e2 l. hook w1 = hook w \<and> owns e1 = {} \<and>
      (\<exists>u. program_kind api e1 XDP_PROGRAM_NAME = Some (Inr u)) \<and>
      attach_xdp api w1 e1 iface = (w2, e2, Inr l) \<and>
      built api w2 e2 iface l w' res)"
proof -
  note def = assms [unfolded load_and_attach_def]
  show ?thesis
  proof (cases "path_exists api w EBPF_OBJECT_PATH")
    case False
    with def show ?thesis
      by (intro disjI1 exI [of _ ObjectNotFound]) (simp add: after_attach_def)
  next
    case path: True
    show ?thesis
    proof (cases "read_file api w EBPF_OBJECT_PATH")
      case (Inl err)
      with def path show ?thesis
        by (intro disjI1 exI [of _ "ReadFailed err"]) (simp add: after_attach_def)
    next
      case (Inr bs)
      obtain w1 lr where l: "ebpf_load api w bs = (w1, lr)"
        by (cases "ebpf_load api w bs")
      note h1 = load_hook [OF l]
      show ?thesis
      proof (cases lr)
        case (Inl err)
        with def path \<open>read_file api w EBPF_OBJECT_PATH = Inr bs\<close> l h1 show ?thesis
          by (intro disjI1 exI [of _ "ParseFailed err"]) (simp add: after_attach_def)
      next
        case e: (Inr e)
        obtain w2 e2 r2 where g: "logger_init api w1 e = (w2, e2, r2)"
          by (cases "logger_init api w1 e") auto
        have h2: "hook w2 = hook w" "owns e2 = {}"
          using logger_keeps [OF g] load_fresh [of w bs w1 e] l e h1 by simp_all
        have rest: "(case program_kind api e2 XDP_PROGRAM_NAME of
            None \<Rightarrow> (drop_ebpf api w2 e2, Inl ProgramNotFound)
          | Some (Inl err) \<Rightarrow> (drop_ebpf api w2 e2, Inl (NotXdp err))
          | Some (Inr _) \<Rightarrow> attach_and_build api w2 e2 iface) = (w', res)"
          unfolding attach_and_build_def using def path Inr l e g by simp
        show ?thesis
        proof (cases "\<exists>u. program_kind api e2 XDP_PROGRAM_NAME = Some (Inr u)")
          case False
          with rest have "\<exists>err. res = Inl err \<and> \<not> after_attach err \<and> w' = drop_ebpf api w2 e2"
            by (auto simp: after_attach_def split: option.splits sum.splits)
          with drop_empty [OF h2(2)] h2(1) show ?thesis by metis
        next
          case True
          with rest have ab: "attach_and_build api w2 e2 iface = (w', res)"
            by auto
          show ?thesis
            using attach_and_build_steps [OF ab h2(2) True] unfolding h2(1) .
        qed
      qed
    qed
  qed
qed

end

context xdp_hooks
begin

text \<open>The two ways past the attachment, with the hook in place.\<close>

lemma load_past_attach:
  assumes "attach_xdp api w1 e1 iface = (w2, e2, Inr l)" "hook w1 = hook w" "owns e1 = {}"
    and "build_ring_handles api w2 e2 = (w3, e3, res)"
  shows "hook w iface = None \<and> (\<forall>j. hook w j \<noteq> Some l) \<and> hook w3 = (hook w)(iface \<mapsto> l) \<and>
    owns e3 = {l} \<and> program_kind api e3 = program_kind api e1"
  using attach_xdp_spec [OF assms(1)] build_ring_handles_spec [OF assms(4)] assms(2,3) by simp

lemma load_ok:
  assumes "load_and_attach api w iface = (w', Inr (probe, hs))"
  shows "hook w iface = None \<and> (\<forall>j. hook w j \<noteq> Some (lp_link probe)) \<and>
    hook w' = (hook w)(iface \<mapsto> lp_link probe) \<and> owns (lp_ebpf probe) = {lp_link probe} \<and>
    (\<exists>u. program_kind api (lp_ebpf probe) XDP_PROGRAM_NAME = Some (Inr u))"
proof -
  from load_and_attach_steps [OF assms] obtain w1 e1 w2 e2 l where
    a: "attach_xdp api w1 e1 iface = (w2, e2, Inr l)" "hook w1 = hook w" "owns e1 = {}"
    and k: "\<exists>u. program_kind api e1 XDP_PROGRAM_NAME = Some (Inr u)"
    and c: "built api w2 e2 iface l w' (Inr (probe, hs))"
    by blast
  obtain w3 e3 res where b: "build_ring_handles api w2 e2 = (w3, e3, res)"
    by (cases "build_ring_handles api w2 e2") auto
  with c have "w' = w3" "probe = \<lparr>lp_ebpf = e3, lp_iface = iface, lp_link = l\<rparr>"
    by (auto simp: built_def split: sum.splits)
  with load_past_attach [OF a b] k show ?thesis by simp
qed

lemma load_err:
  assumes "load_and_attach api w iface = (w', Inl err)"
  shows "if after_attach err
    then \<exists>w1 e l. hook w1 = (hook w)(iface \<mapsto> l) \<and> owns e = {l} \<and> w' = drop_ebpf api w1 e
    else hook w' = hook w"
proof (cases "\<not> after_attach err \<and> hook w' = hook w")
  case False
  with load_and_attach_steps [OF assms] obtain w1 e1 w2 e2 l where
    a: "attach_xdp api w1 e1 iface = (w2, e2, Inr l)" "hook w1 = hook w" "owns e1 = {}"
    and c: "built api w2 e2 iface l w' (Inl err)"
    by blast
  obtain w3 e3 res where b: "build_ring_handles api w2 e2 = (w3, e3, res)"
    by (cases "build_ring_handles api w2 e2") auto
  with c have r: "w' = drop_ebpf api w3 e3" "res = Inl err"
    by (auto simp: built_def split: sum.splits)
  then have "after_attach err"
    using build_ring_handles_result [OF b] by simp
  with r load_past_attach [OF a b] show ?thesis by auto
qed simp

end

section \<open>A reference host\<close>

text \<open>
  A host with one object file and a set of hooked interfaces; a link is named after its
  interface. Driver-mode attachment works on the listed interfaces only, and the destructor
  removes the hooks it owns.
\<close>

record host =
  ho_object :: "u8 list option"
  ho_hooked :: "string list"
  ho_native :: "string list"

record host_ebpf =
  he_owns :: "string list"
  he_programs :: "string list"
  he_maps :: "string list"

definition host_attach ::
  "host \<Rightarrow> host_ebpf \<Rightarrow> string \<Rightarrow> xdp_flags \<Rightarrow> host \<times> host_ebpf \<times> (string + string)" where
  "host_attach w e i fl =
     (if i \<in> set (ho_hooked w) then (w, e, Inl ''busy'')
      else if fl = DRV_MODE \<and> i \<notin> set (ho_native w) then (w, e, Inl ''not supported'')
      else (w\<lparr>ho_hooked := i # ho_hooked w\<rparr>, e\<lparr>he_owns := i # he_owns e\<rparr>, Inr i))"

definition host_api :: "string list \<Rightarrow> (host, host_ebpf, string, string, string) loader_api" where
  "host_api maps = \<lparr>
     path_exists = (\<lambda>w p. ho_object w \<noteq> None),
     read_file = (\<lambda>w p. case ho_object w of None \<Rightarrow> Inl ''no file'' | Some bs \<Rightarrow> Inr bs),
     ebpf_load = (\<lambda>w bs. (w, if bs = [] then Inl ''empty''
        else Inr \<lparr>he_owns = [], he_programs = [''xdp_ingress''], he_maps = maps\<rparr>)),
     logger_init = (\<lambda>w e. (w, e, Inl ''no log map'')),
     program_kind = (\<lambda>e n. if n \<in> set (he_programs e) then Some (Inr ()) else None),
     program_load = (\<lambda>w e. (w, e, Inr ())),
     program_attach = host_attach,
     take_map = (\<lambda>e n. if n \<in> set (he_maps e)
        then (e\<lparr>he_maps := removeAll n (he_maps e)\<rparr>, Some n) else (e, None)),
     ring_try_from = (\<lambda>w m. (w, Inr m)),
     program_detach = (\<lambda>w e l. if l \<in> set (he_owns e)
        then (w\<lparr>ho_hooked := removeAll l (ho_hooked w)\<rparr>, e\<lparr>he_owns := removeAll l (he_owns e)\<rparr>, Inr ())
        else (w, e, Inl ''unknown link'')),
     drop_ebpf = (\<lambda>w e. w\<lparr>ho_hooked := filter (\<lambda>i. i \<notin> set (he_owns e)) (ho_hooked w)\<rparr>)\<rparr>"

definition host_hook :: "host \<Rightarrow> string \<Rightarrow> string option" where
  "host_hook w i = (if i \<in> set (ho_hooked w) then Some i else None)"

definition host_owns :: "host_ebpf \<Rightarrow> string set" where
  "host_owns e = set (he_owns e)"

lemma host_hooks: "xdp_hooks (host_api maps) host_hook host_owns"
  by unfold_locales
    (auto simp: host_api_def host_attach_def host_hook_def host_owns_def fun_eq_iff split: if_splits)

interpretation rh: xdp_hooks "host_api maps" host_hook host_owns
  by (rule host_hooks)

definition host_of :: "string list \<Rightarrow> host" where
  "host_of native = \<lparr>ho_object = Some [127], ho_hooked = [], ho_native = native\<rparr>"

lemma host_load:
  "load_and_attach (host_api [''SIGNAL_RING'']) (host_of native) ''eth0'' =
     ((host_of native)\<lparr>ho_hooked := [''eth0'']\<rparr>,
      Inr (\<lparr>lp_ebpf = \<lparr>he_owns = [''eth0''], he_programs = [''xdp_ingress''], he_maps = []\<rparr>,
            lp_iface = ''eth0'', lp_link = ''eth0''\<rparr>,
           Some ''SIGNAL_RING'' # replicate 31 None))"
  by (simp add: load_and_attach_def host_api_def host_of_def XDP_PROGRAM_NAME_def attach_xdp_def
      host_attach_def build_ring_handles_def Let_def)
    (simp add: numeral_eq_Suc)

lemma host_load_no_map:
  "load_and_attach (host_api []) (host_of native) ''eth0'' = (host_of native, Inl MapNotFound)"
  by (simp add: load_and_attach_def host_api_def host_of_def XDP_PROGRAM_NAME_def attach_xdp_def
      host_attach_def build_ring_handles_def Let_def)

section \<open>Properties\<close>

text \<open>
  What a successful load hands to the caller, for every behaviour of aya: the probe is for
  the requested interface, and of the 32 handle slots exactly slot 0 is populated, so as a
  per-CPU table only CPU 0 has a ring. Workers on other CPUs can never be started from it.
\<close>

theorem load_populates_cpu_0:
  assumes "load_and_attach api w iface = (w', Inr (probe, hs))"
  shows "lp_iface probe = iface \<and> (\<exists>r. hs = Some r # replicate 31 None) \<and> length hs = NCPU \<and>
    populated_count (ring_table_new hs) = 1 \<and>
    (\<forall>cpu. get_mut (ring_table_new hs) cpu \<noteq> None \<longleftrightarrow> cpu = 0)"
proof -
  from assms obtain w2 e2 e3 where "build_ring_handles api w2 e2 = (w', e3, Inr hs)"
    and iface: "lp_iface probe = iface"
    by (auto simp: load_and_attach_def split: if_splits prod.splits sum.splits option.splits)
  from build_ring_handles_result [OF this(1)] obtain r where hs: "hs = Some r # replicate 31 None"
    by auto
  have "get_mut (ring_table_new hs) cpu \<noteq> None \<longleftrightarrow> cpu = 0" for cpu
    by (cases cpu) (auto simp: hs get_mut_def ring_table_new_def NCPU_def)
  with iface hs show ?thesis
    by (simp add: populated_count_def ring_table_new_def NCPU_def)
qed

theorem load_populates_cpu_0_witness:
  "snd (load_and_attach (host_api [''SIGNAL_RING'']) (host_of []) ''eth0'') \<noteq> Inl MapNotFound \<and>
   populated_count (ring_table_new (Some ''SIGNAL_RING'' # replicate 31 None)) = 1"
  using load_populates_cpu_0 [OF host_load [of "[]"]] host_load [of "[]"] by simp

lemma detach_after_load:
  assumes "xdp_hooks api hook owns"
    and "load_and_attach api w iface = (w1, Inr (probe, hs))"
    and "hook w2 = hook w1" and "detach api w2 probe = (w3, res)"
  shows "hook w iface = None \<and> hook w1 = (hook w)(iface \<mapsto> lp_link probe) \<and>
    (case res of Inr _ \<Rightarrow> hook w3 = hook w | Inl err \<Rightarrow> \<exists>s. err = DetachFailed s)"
proof -
  obtain e3 l where p: "e3 = lp_ebpf probe" "l = lp_link probe"
    by simp
  obtain u where loaded: "hook w iface = None" "\<forall>j. hook w j \<noteq> Some l" "hook w1 = (hook w)(iface \<mapsto> l)"
    "owns e3 = {l}" "program_kind api e3 XDP_PROGRAM_NAME = Some (Inr u)"
    using xdp_hooks.load_ok [OF assms(1,2)] p by auto
  obtain w4 e4 dres where d: "program_detach api w2 e3 l = (w4, e4, dres)"
    by (cases "program_detach api w2 e3 l") auto
  show ?thesis
  proof (cases dres)
    case (Inl err)
    then show ?thesis
      using assms(4) d loaded p by (auto simp: detach_def Let_def)
  next
    case (Inr v)
    have "hook w4 = (\<lambda>i. if hook w2 i = Some l then None else hook w2 i)" "owns e4 = {}"
      using xdp_hooks.detach_ok [OF assms(1)] d Inr loaded by simp_all
    then have "hook w4 = hook w" "hook (drop_ebpf api w4 e4) = hook w4"
      using loaded assms(3) xdp_hooks.drop_empty [OF assms(1), of e4 w4] by (auto simp: fun_eq_iff)
    then show ?thesis
      using assms(4) d loaded p Inr by (auto simp: detach_def Let_def)
  qed
qed

lemma detach_restores:
  assumes "xdp_hooks api hook owns" "load_and_attach api w iface = (w1, Inr (probe, hs))"
    and "hook w2 = hook w1" "detach api w2 probe = (w3, Inr u)"
  shows "hook w3 = hook w"
  using detach_after_load [OF assms] by simp

text \<open>
  C24. Load and detach are inverse on the network hooks, under aya's contract: a successful
  load adds exactly the probe's link to the requested interface, which was free, and a
  detach, however the world changed in between short of its hooks, finds its program; when it
  reports success every interface is as it was before the load.
\<close>

theorem load_detach_restores:
  assumes "xdp_hooks api hook owns"
    and "load_and_attach api w iface = (w1, Inr (probe, hs))"
    and "hook w2 = hook w1" and "detach api w2 probe = (w3, res)"
  shows "hook w iface = None \<and> hook w1 = (hook w)(iface \<mapsto> lp_link probe) \<and>
    (case res of Inr _ \<Rightarrow> hook w3 = hook w | Inl err \<Rightarrow> \<exists>s. err = DetachFailed s)"
  by (rule detach_after_load [OF assms])

theorem load_detach_restores_witness:
  "\<exists>w1 probe hs. load_and_attach (host_api [''SIGNAL_RING'']) (host_of []) ''eth0'' = (w1, Inr (probe, hs)) \<and>
     host_hook w1 ''eth0'' = Some ''eth0'' \<and> detach (host_api [''SIGNAL_RING'']) w1 probe = (host_of [], Inr ())"
proof -
  let ?p = "\<lparr>lp_ebpf = \<lparr>he_owns = [''eth0''], he_programs = [''xdp_ingress''], he_maps = []\<rparr>,
    lp_iface = ''eth0'', lp_link = ''eth0''\<rparr>"
  have d: "detach (host_api [''SIGNAL_RING'']) ((host_of [])\<lparr>ho_hooked := [''eth0'']\<rparr>) ?p = (host_of [], Inr ())"
    by (simp add: detach_def host_api_def host_of_def XDP_PROGRAM_NAME_def Let_def)
  from load_detach_restores [OF host_hooks host_load refl d] d host_load [of "[]"]
  show ?thesis by (intro exI) (auto simp: host_hook_def host_of_def)
qed

text \<open>
  C25. What a failed load leaves behind, under aya's contract. Every error before the
  attachment, the failure of both attachment modes included, leaves all hooks as they were.
  The two errors of the ring lookup come after it: the program is attached when they are
  returned, the code calls no detach, and only the destructor of the dropped object (which,
  by the comment of \<^verbatim>\<open>load_and_attach\<close>, leaves the hook attached) stands between
  the caller and a dirty interface.
\<close>

theorem load_error_hooks:
  assumes "xdp_hooks api hook owns" and "load_and_attach api w iface = (w', Inl err)"
  shows "if after_attach err
    then \<exists>w1 e l. hook w1 = (hook w)(iface \<mapsto> l) \<and> owns e = {l} \<and> w' = drop_ebpf api w1 e
    else hook w' = hook w"
  by (rule xdp_hooks.load_err [OF assms])

theorem load_error_hooks_witness:
  "\<exists>w1 e l. host_hook w1 = (host_hook (host_of []))(''eth0'' \<mapsto> l) \<and>
     host_of [] = drop_ebpf (host_api []) w1 e"
  using load_error_hooks [OF host_hooks host_load_no_map [of "[]"]]
  by (simp add: after_attach_def) blast

end
