(* ===== verification/SG_Capture.thy ===== *)
theory SG_Capture
  imports SG_Loader SG_VacuumRun
begin

text \<open>
  \<^verbatim>\<open>sg-capture/src/main.rs\<close>: the coordinator. It parses the command line, loads the
  probe, starts one consumer and one vacuum worker per populated ring, waits for a signal,
  stops the workers and detaches. Threads, channels, signals and the runtime are operations
  over the state \<open>'v\<close> of the process; the kernel side is the loader's world \<open>'w\<close>.
\<close>

section \<open>Command line\<close>

text \<open>
  The arguments are the Unicode strings that \<^verbatim>\<open>env::args\<close> yields; an argument that is
  not Unicode makes the iterator itself panic and is not modelled.
\<close>

text \<open>\<^verbatim>\<open>str::parse::<usize>\<close> on a 64-bit target: an optional plus sign, digits only, no overflow.\<close>

definition to_digit :: "char \<Rightarrow> nat option" where
  "to_digit c = (let d = of_char c :: nat in if 48 \<le> d \<and> d \<le> 57 then Some (d - 48) else None)"

fun digits_val :: "nat \<Rightarrow> string \<Rightarrow> nat option" where
  "digits_val acc [] = Some acc"
| "digits_val acc (c # cs) =
     (case to_digit c of
        None \<Rightarrow> None
      | Some d \<Rightarrow> if acc * 10 + d < 2 ^ 64 then digits_val (acc * 10 + d) cs else None)"

definition parse_usize :: "string \<Rightarrow> nat option" where
  "parse_usize s =
     (case s of
        [] \<Rightarrow> None
      | c # cs \<Rightarrow>
          if c = CHR ''+'' then (if cs = [] then None else digits_val 0 cs) else digits_val 0 s)"

definition arg_nth :: "string list \<Rightarrow> nat \<Rightarrow> string option" where
  "arg_nth args i = (if i < length args then Some (args ! i) else None)"

definition worker_count :: "string list \<Rightarrow> nat" where
  "worker_count args =
     min (case Option.bind (arg_nth args 2) parse_usize of Some n \<Rightarrow> n | None \<Rightarrow> NCPU) NCPU"

section \<open>Interface of the process\<close>

datatype shutdown_signal = Sigint | Sigterm

text \<open>\<^verbatim>\<open>VacuumWorkerConfig\<close>, without the two shared handles, which are part of the process state.\<close>

record ('r, 'tx) worker_config =
  wc_cpu :: nat
  wc_ring :: 'r
  wc_tx :: 'tx

record ('v, 'r, 'tx, 'rx, 'h) proc_api =
  bounded_channel :: "'v \<Rightarrow> nat \<Rightarrow> 'v \<times> 'tx \<times> 'rx"
  spawn_consumer :: "'v \<Rightarrow> nat \<Rightarrow> 'rx \<Rightarrow> 'v \<times> (string + unit)"
  spawn_worker :: "'v \<Rightarrow> ('r, 'tx) worker_config \<Rightarrow> 'v \<times> 'h"
  spawn_reporter :: "'v \<Rightarrow> 'v \<times> bool"
  install_handler :: "'v \<Rightarrow> shutdown_signal \<Rightarrow> 'v \<times> (string + unit)"
  await_signal :: "'v \<Rightarrow> ('v \<times> shutdown_signal) option"
  store_shutdown :: "'v \<Rightarrow> 'v"
  notify_reporter :: "'v \<Rightarrow> 'v \<times> bool"
  await_worker :: "'v \<Rightarrow> 'h \<Rightarrow> ('v \<times> (string + unit)) option"

text \<open>Waiting for a signal or for a worker that never ends is \<open>None\<close>.\<close>

section \<open>The code\<close>

datatype main_error =
    Usage
  | LoadFailed load_error
  | ConsumerFailed string
  | NoWorkers
  | ReporterPanic
  | HandlerFailed shutdown_signal string
  | DetachError detach_error

fun spawn_workers ::
  "('v, 'r, 'tx, 'rx, 'h) proc_api \<Rightarrow> 'v \<Rightarrow> nat \<Rightarrow> 'r option list \<Rightarrow> 'v \<times> (string + 'h list)" where
  "spawn_workers api v cpu [] = (v, Inr [])"
| "spawn_workers api v cpu (None # slots) = spawn_workers api v (Suc cpu) slots"
| "spawn_workers api v cpu (Some ring # slots) =
     (case dispatch_channel (bounded_channel api v) of (v1, tx, rx) \<Rightarrow>
       (case spawn_consumer api v1 cpu rx of
          (v2, Inl err) \<Rightarrow> (v2, Inl err)
        | (v2, Inr _) \<Rightarrow>
            (case spawn_worker api v2 \<lparr>wc_cpu = cpu, wc_ring = ring, wc_tx = tx\<rparr> of (v3, h) \<Rightarrow>
              (case spawn_workers api v3 (Suc cpu) slots of
                 (v4, Inl err) \<Rightarrow> (v4, Inl err)
               | (v4, Inr hs) \<Rightarrow> (v4, Inr (h # hs))))))"

text \<open>
  The join loop; an error of a join is only logged. Both build profiles of \<^verbatim>\<open>src/Cargo.toml\<close>
  set \<^verbatim>\<open>panic = "abort"\<close>, so the error is a cancelled task: a worker that panics ends the
  process before it can be joined.
\<close>

fun join_workers :: "('v, 'r, 'tx, 'rx, 'h) proc_api \<Rightarrow> 'v \<Rightarrow> 'h list \<Rightarrow> 'v option" where
  "join_workers api v [] = Some v"
| "join_workers api v (h # hs) =
     (case await_worker api v h of
        None \<Rightarrow> None
      | Some (v', _) \<Rightarrow> join_workers api v' hs)"

text \<open>From the signal on: the shutdown sequence.\<close>

definition shutdown_sequence ::
  "('w, 'e, 'm, 'r, 'l) loader_api \<Rightarrow> ('v, 'r, 'tx, 'rx, 'h) proc_api \<Rightarrow> 'w \<Rightarrow> 'v \<Rightarrow>
   ('e, 'l) loaded_probe \<Rightarrow> 'h list \<Rightarrow> ('w \<times> 'v \<times> (main_error + unit)) option" where
  "shutdown_sequence lapi api w v probe hs =
     (let v = store_shutdown api v in
      case notify_reporter api v of (v, _) \<Rightarrow>
        (case join_workers api v hs of
           None \<Rightarrow> None
         | Some v \<Rightarrow>
             (case detach lapi w probe of
                (w, Inl err) \<Rightarrow> Some (w, v, Inl (DetachError err))
              | (w, Inr _) \<Rightarrow> Some (w, v, Inr ()))))"

text \<open>
  From the worker count check on. An early return drops the probe. A panic of the reporter's
  \<^verbatim>\<open>expect\<close> aborts the process: nothing is dropped, the state is the one at the panic.
\<close>

definition run_capture ::
  "('w, 'e, 'm, 'r, 'l) loader_api \<Rightarrow> ('v, 'r, 'tx, 'rx, 'h) proc_api \<Rightarrow> 'w \<Rightarrow> 'v \<Rightarrow>
   ('e, 'l) loaded_probe \<Rightarrow> 'h list \<Rightarrow> ('w \<times> 'v \<times> (main_error + unit)) option" where
  "run_capture lapi api w v probe hs =
     (if hs = [] then (case detach lapi w probe of (w, _) \<Rightarrow> Some (w, v, Inl NoWorkers))
      else
        case spawn_reporter api v of
          (v, False) \<Rightarrow> Some (w, v, Inl ReporterPanic)
        | (v, True) \<Rightarrow>
            (case install_handler api v Sigint of
               (v, Inl err) \<Rightarrow>
                 Some (drop_ebpf lapi w (lp_ebpf probe), v, Inl (HandlerFailed Sigint err))
             | (v, Inr _) \<Rightarrow>
                 (case install_handler api v Sigterm of
                    (v, Inl err) \<Rightarrow>
                      Some (drop_ebpf lapi w (lp_ebpf probe), v, Inl (HandlerFailed Sigterm err))
                  | (v, Inr _) \<Rightarrow>
                      (case await_signal api v of
                         None \<Rightarrow> None
                       | Some (v, _) \<Rightarrow> shutdown_sequence lapi api w v probe hs))))"

definition capture_main ::
  "('w, 'e, 'm, 'r, 'l) loader_api \<Rightarrow> ('v, 'r, 'tx, 'rx, 'h) proc_api \<Rightarrow> 'w \<Rightarrow> 'v \<Rightarrow>
   string list \<Rightarrow> ('w \<times> 'v \<times> (main_error + unit)) option" where
  "capture_main lapi api w v args =
     (case arg_nth args 1 of
        None \<Rightarrow> Some (w, v, Inl Usage)
      | Some iface \<Rightarrow>
          (case load_and_attach lapi w iface of
             (w, Inl err) \<Rightarrow> Some (w, v, Inl (LoadFailed err))
           | (w, Inr (probe, rings)) \<Rightarrow>
               (case spawn_workers api v 0 (take (worker_count args) rings) of
                  (v, Inl err) \<Rightarrow> Some (drop_ebpf lapi w (lp_ebpf probe), v, Inl (ConsumerFailed err))
                | (v, Inr hs) \<Rightarrow> run_capture lapi api w v probe hs)))"

section \<open>Parsing the worker count\<close>

text \<open>The decimal notation of a number, the inverse of the parser.\<close>

definition digit_char :: "nat \<Rightarrow> char" where
  "digit_char d = char_of (48 + d)"

fun decimal :: "nat \<Rightarrow> string" where
  "decimal n = (if n < 10 then [digit_char n] else decimal (n div 10) @ [digit_char (n mod 10)])"

declare decimal.simps [simp del]

lemma of_digit_char: "d < 10 \<Longrightarrow> (of_char (digit_char d) :: nat) = 48 + d"
  by (simp add: digit_char_def)

lemma to_digit_char [simp]: "d < 10 \<Longrightarrow> to_digit (digit_char d) = Some d"
  by (simp add: to_digit_def of_digit_char)

lemma digits_val_append:
  "digits_val acc (s @ t) = Option.bind (digits_val acc s) (\<lambda>a. digits_val a t)"
  by (induction s arbitrary: acc) (simp_all split: option.split)

lemma digits_val_decimal: "n < 2 ^ 64 \<Longrightarrow> digits_val 0 (decimal n) = Some n"
proof (induction n rule: decimal.induct)
  case (1 n)
  show ?case
  proof (cases "n < 10")
    case True
    then show ?thesis
      by (subst decimal.simps) simp
  next
    case False
    with 1 have "digits_val 0 (decimal (n div 10)) = Some (n div 10)"
      by simp
    with False 1(2) show ?thesis
      by (subst decimal.simps) (simp add: digits_val_append)
  qed
qed

lemma decimal_head: "\<exists>d cs. d < 10 \<and> decimal n = digit_char d # cs"
proof (induction n rule: decimal.induct)
  case (1 n)
  then show ?case
    by (subst decimal.simps) (cases "n < 10"; force)
qed

lemma digit_not_plus: "d < 10 \<Longrightarrow> digit_char d \<noteq> CHR ''+''"
proof
  assume "d < 10" "digit_char d = CHR ''+''"
  then have "(of_char (CHR ''+'') :: nat) = 48 + d"
    using of_digit_char by metis
  then show False by simp
qed

lemma parse_decimal: "n < 2 ^ 64 \<Longrightarrow> parse_usize (decimal n) = Some n"
proof -
  assume n: "n < 2 ^ 64"
  obtain d cs where h: "d < 10" "decimal n = digit_char d # cs"
    using decimal_head by blast
  with digits_val_decimal [OF n] show ?thesis
    by (simp add: parse_usize_def digit_not_plus del: digits_val.simps)
qed

section \<open>The contract of the process\<close>

text \<open>
  \<open>flag\<close> is the shared shutdown flag and \<open>live\<close> the workers spawned and not yet joined.
  Only \<^verbatim>\<open>shutdown.store\<close> raises the flag, only a spawn adds a worker and only an
  await that returns removes one.
\<close>

locale process =
  fixes api :: "('v, 'r, 'tx, 'rx, 'h) proc_api"
    and flag :: "'v \<Rightarrow> bool"
    and live :: "'v \<Rightarrow> 'h list"
  assumes chan: "bounded_channel api v n = (v', tx, rx) \<Longrightarrow> flag v' = flag v \<and> live v' = live v"
    and consumer: "spawn_consumer api v c rx = (v', cres) \<Longrightarrow> flag v' = flag v \<and> live v' = live v"
    and worker: "spawn_worker api v cfg = (v', h) \<Longrightarrow> flag v' = flag v \<and> live v' = live v @ [h]"
    and reporter: "spawn_reporter api v = (v', ok) \<Longrightarrow> flag v' = flag v \<and> live v' = live v"
    and handler: "install_handler api v sg = (v', hres) \<Longrightarrow> flag v' = flag v \<and> live v' = live v"
    and signalled: "await_signal api v = Some (v', sg) \<Longrightarrow> flag v' = flag v \<and> live v' = live v"
    and stored: "flag (store_shutdown api v) \<and> live (store_shutdown api v) = live v"
    and notified: "notify_reporter api v = (v', nres) \<Longrightarrow> flag v' = flag v \<and> live v' = live v"
    and joined: "await_worker api v h = Some (v', jres) \<Longrightarrow> flag v' = flag v \<and> live v' = remove1 h (live v)"
begin

lemma spawn_one:
  assumes "spawn_workers api v cpu (Some ring # slots) = (v', Inr hs)"
  obtains v3 h hs' where "flag v3 = flag v" "live v3 = live v @ [h]"
    "spawn_workers api v3 (Suc cpu) slots = (v', Inr hs')" "hs = h # hs'"
proof -
  obtain v1 tx rx where c: "bounded_channel api v DISPATCH_CAPACITY = (v1, tx, rx)"
    by (cases "bounded_channel api v DISPATCH_CAPACITY") auto
  obtain v2 cr where k: "spawn_consumer api v1 cpu rx = (v2, cr)"
    by (cases "spawn_consumer api v1 cpu rx")
  obtain v3 h where w: "spawn_worker api v2 \<lparr>wc_cpu = cpu, wc_ring = ring, wc_tx = tx\<rparr> = (v3, h)"
    by (cases "spawn_worker api v2 \<lparr>wc_cpu = cpu, wc_ring = ring, wc_tx = tx\<rparr>")
  have "flag v3 = flag v" "live v3 = live v @ [h]"
    using chan [OF c] consumer [OF k] worker [OF w] by simp_all
  moreover obtain hs' where "spawn_workers api v3 (Suc cpu) slots = (v', Inr hs')" "hs = h # hs'"
    using assms c k w by (auto simp: dispatch_channel_def split: sum.splits prod.splits)
  ultimately show ?thesis using that by blast
qed

lemma spawn_workers_ok:
  "spawn_workers api v cpu slots = (v', Inr hs) \<Longrightarrow>
   flag v' = flag v \<and> live v' = live v @ hs \<and> length hs = length (filter (\<lambda>s. s \<noteq> None) slots)"
proof (induction slots arbitrary: v cpu hs)
  case (Cons s slots)
  show ?case
  proof (cases s)
    case None
    with Cons show ?thesis by simp
  next
    case (Some ring)
    from Cons.prems [unfolded Some] obtain v3 h hs' where
      "flag v3 = flag v" "live v3 = live v @ [h]"
      "spawn_workers api v3 (Suc cpu) slots = (v', Inr hs')" "hs = h # hs'"
      by (rule spawn_one)
    with Cons.IH [of v3 "Suc cpu" hs'] Some show ?thesis by simp
  qed
qed simp

lemma join_workers_ok:
  "join_workers api v hs = Some v' \<Longrightarrow> live v = ls @ hs \<Longrightarrow> set ls \<inter> set hs = {} \<Longrightarrow>
   flag v' = flag v \<and> live v' = ls"
proof (induction hs arbitrary: v)
  case (Cons h hs)
  then obtain v1 r where a: "await_worker api v h = Some (v1, r)" "join_workers api v1 hs = Some v'"
    by (auto split: option.splits)
  have "live v1 = ls @ hs"
    using joined [OF a(1)] Cons.prems(2,3) by (simp add: remove1_append)
  with Cons.IH [OF a(2)] Cons.prems(3) joined [OF a(1)] show ?case by simp
qed simp

lemma shutdown_sequence_ok:
  assumes "shutdown_sequence lapi api w v probe hs = Some (w', v', res)" "live v = hs"
  shows "flag v' \<and> live v' = [] \<and> (\<exists>dres. detach lapi w probe = (w', dres) \<and>
    res = (case dres of Inl err \<Rightarrow> Inl (DetachError err) | Inr u \<Rightarrow> Inr ()))"
proof -
  obtain v1 b where n: "notify_reporter api (store_shutdown api v) = (v1, b)"
    by (cases "notify_reporter api (store_shutdown api v)")
  obtain v2 where j: "join_workers api v1 hs = Some v2"
    using assms(1) n by (auto simp: shutdown_sequence_def Let_def split: option.splits)
  obtain w2 dres where d: "detach lapi w probe = (w2, dres)"
    by (cases "detach lapi w probe")
  have "flag v1" "live v1 = [] @ hs"
    using stored [of v] notified [OF n] assms(2) by simp_all
  with join_workers_ok [OF j, of "[]"] have "flag v2 \<and> live v2 = []" by simp
  moreover have "v' = v2 \<and> w' = w2 \<and>
      res = (case dres of Inl err \<Rightarrow> Inl (DetachError err) | Inr u \<Rightarrow> Inr ())"
    using assms(1) n j d by (cases dres) (simp_all add: shutdown_sequence_def Let_def)
  ultimately show ?thesis using d by simp
qed

text \<open>How a run with workers ends: by the shutdown sequence, or by a step that failed before it.\<close>

lemma run_capture_cases:
  assumes "run_capture lapi api w v probe hs = Some (w', v', res)" "hs \<noteq> []"
  shows "(\<exists>v1. flag v1 = flag v \<and> live v1 = live v \<and>
      shutdown_sequence lapi api w v1 probe hs = Some (w', v', res)) \<or>
    (flag v' = flag v \<and> live v' = live v \<and>
      (res = Inl ReporterPanic \<and> w' = w \<or>
       (\<exists>sg err. res = Inl (HandlerFailed sg err)) \<and> w' = drop_ebpf lapi w (lp_ebpf probe)))"
proof -
  obtain v1 ok where r: "spawn_reporter api v = (v1, ok)"
    by (cases "spawn_reporter api v")
  obtain v2 r2 where i: "install_handler api v1 Sigint = (v2, r2)"
    by (cases "install_handler api v1 Sigint")
  obtain v3 r3 where t: "install_handler api v2 Sigterm = (v3, r3)"
    by (cases "install_handler api v2 Sigterm")
  note f = reporter [OF r] handler [OF i] handler [OF t]
  show ?thesis
  proof (cases "ok \<and> \<not> isl r2 \<and> \<not> isl r3")
    case False
    with assms r i t f show ?thesis
      by (cases ok; cases r2; cases r3) (auto simp: run_capture_def)
  next
    case True
    then obtain u2 u3 where "r2 = Inr u2" "r3 = Inr u3"
      by (cases r2; cases r3) auto
    with True assms r i t obtain v4 sg where s: "await_signal api v3 = Some (v4, sg)"
      "shutdown_sequence lapi api w v4 probe hs = Some (w', v', res)"
      by (auto simp: run_capture_def split: option.splits)
    from signalled [OF s(1)] f s(2) show ?thesis
      by (intro disjI1 exI [of _ v4]) simp
  qed
qed

end

section \<open>What the coordinator starts\<close>

text \<open>The rings the loader hands out, cut to the worker count.\<close>

lemma take_loader_rings:
  "take (worker_count args) (Some r # replicate 31 None) =
     (if worker_count args = 0 then [] else Some r # replicate (worker_count args - 1) None)"
proof -
  have "worker_count args \<le> 32"
    by (simp add: worker_count_def NCPU_def)
  then show ?thesis by (cases "worker_count args") (auto simp: min_def)
qed

lemma spawn_workers_none: "spawn_workers api v cpu (replicate n None) = (v, Inr [])"
  by (induction n arbitrary: cpu) simp_all

lemma loader_rings:
  assumes "load_and_attach lapi w iface = (w', Inr (probe, rings))"
  obtains r where "rings = Some r # replicate 31 None"
proof -
  from assms obtain w2 e2 e3 where "build_ring_handles lapi w2 e2 = (w', e3, Inr rings)"
    by (auto simp: load_and_attach_def split: if_splits prod.splits sum.splits option.splits)
  from build_ring_handles_result [OF this] that show ?thesis by auto
qed

lemma capture_main_loaded:
  assumes "capture_main lapi api w v args = Some (w', v', res)" "arg_nth args 1 = Some iface"
    and "load_and_attach lapi w iface = (w1, Inr (probe, rings))"
  obtains r v1 sres where "rings = Some r # replicate 31 None"
    "spawn_workers api v 0 (if worker_count args = 0 then []
       else Some r # replicate (worker_count args - 1) None) = (v1, sres)"
    "case sres of
       Inl err \<Rightarrow> w' = drop_ebpf lapi w1 (lp_ebpf probe) \<and> v' = v1 \<and> res = Inl (ConsumerFailed err)
     | Inr hs \<Rightarrow> run_capture lapi api w1 v1 probe hs = Some (w', v', res)"
proof -
  from loader_rings [OF assms(3)] obtain r where r: "rings = Some r # replicate 31 None"
    by blast
  obtain v1 sres where s: "spawn_workers api v 0 (take (worker_count args) rings) = (v1, sres)"
    by (cases "spawn_workers api v 0 (take (worker_count args) rings)")
  then have "case sres of
       Inl err \<Rightarrow> w' = drop_ebpf lapi w1 (lp_ebpf probe) \<and> v' = v1 \<and> res = Inl (ConsumerFailed err)
     | Inr hs \<Rightarrow> run_capture lapi api w1 v1 probe hs = Some (w', v', res)"
    using assms by (cases sres) (simp_all add: capture_main_def)
  with that r s show ?thesis
    by (simp only: r take_loader_rings)
qed

lemma one_worker:
  assumes "process api flag live" "n \<noteq> 0"
    and "spawn_workers api v 0 (if n = 0 then [] else Some r # replicate (n - 1) None) = (v', Inr hs)"
  obtains h where "hs = [h]" "flag v' = flag v" "live v' = live v @ [h]"
proof -
  have "flag v' = flag v \<and> live v' = live v @ hs \<and> length hs = 1"
    using process.spawn_workers_ok [OF assms(1), of v 0 "Some r # replicate (n - 1) None" v' hs]
      assms(2,3) by simp
  then show ?thesis
    using that by (cases hs) auto
qed

lemma shutdown_sequence_result:
  "shutdown_sequence lapi api w v probe hs = Some (w', v', res) \<Longrightarrow>
   res = Inr () \<or> (\<exists>err. res = Inl (DetachError err))"
  by (cases res) (auto simp: shutdown_sequence_def Let_def split: option.splits prod.splits sum.splits)

text \<open>A success has loaded.\<close>

lemma capture_main_ok_loads:
  assumes "capture_main lapi api w v args = Some (w', v', Inr ())"
  obtains iface w1 probe rings where "arg_nth args 1 = Some iface"
    "load_and_attach lapi w iface = (w1, Inr (probe, rings))"
  using assms by (auto simp: capture_main_def split: option.splits prod.splits sum.splits)

section \<open>A reference process\<close>

text \<open>
  Workers are named by their CPU, a worker can be joined once the flag is up, and the two
  parameters say which signal arrives and whether handlers can be installed.
\<close>

record rproc =
  rp_flag :: bool
  rp_live :: "nat list"
  rp_signal :: "shutdown_signal option"
  rp_handlers :: bool

definition rp_api :: "(rproc, 'r, nat, nat, nat) proc_api" where
  "rp_api = \<lparr>
     bounded_channel = (\<lambda>v n. (v, n, n)),
     spawn_consumer = (\<lambda>v c rx. (v, Inr ())),
     spawn_worker = (\<lambda>v cfg. (v\<lparr>rp_live := rp_live v @ [wc_cpu cfg]\<rparr>, wc_cpu cfg)),
     spawn_reporter = (\<lambda>v. (v, True)),
     install_handler = (\<lambda>v sg. (v, if rp_handlers v then Inr () else Inl ''EMFILE'')),
     await_signal = (\<lambda>v. map_option (Pair v) (rp_signal v)),
     store_shutdown = (\<lambda>v. v\<lparr>rp_flag := True\<rparr>),
     notify_reporter = (\<lambda>v. (v, True)),
     await_worker = (\<lambda>v h. if rp_flag v then Some (v\<lparr>rp_live := remove1 h (rp_live v)\<rparr>, Inr ()) else None)\<rparr>"

lemma ref_process: "process rp_api rp_flag rp_live"
  by unfold_locales (auto simp: rp_api_def split: if_splits)

interpretation rp: process rp_api rp_flag rp_live
  by (rule ref_process)

definition rproc_of :: "shutdown_signal option \<Rightarrow> bool \<Rightarrow> rproc" where
  "rproc_of sg ok = \<lparr>rp_flag = False, rp_live = [], rp_signal = sg, rp_handlers = ok\<rparr>"

definition sample_args :: "string list" where
  "sample_args = [''sg-capture'', ''eth0'']"

lemma sample_args: "arg_nth sample_args (Suc 0) = Some ''eth0''" "worker_count sample_args = 32"
  by (simp_all add: sample_args_def arg_nth_def worker_count_def NCPU_def)

definition host_probe :: "(host_ebpf, string) loaded_probe" where
  "host_probe = \<lparr>lp_ebpf = \<lparr>he_owns = [''eth0''], he_programs = [''xdp_ingress''], he_maps = []\<rparr>,
     lp_iface = ''eth0'', lp_link = ''eth0''\<rparr>"

lemma host_load_probe:
  "load_and_attach (host_api [''SIGNAL_RING'']) (host_of native) ''eth0'' =
     ((host_of native)\<lparr>ho_hooked := [''eth0'']\<rparr>,
      Inr (host_probe, Some ''SIGNAL_RING'' # replicate 31 None))"
  by (simp add: host_load host_probe_def)

lemma host_detach_probe:
  "detach (host_api maps) ((host_of native)\<lparr>ho_hooked := [''eth0'']\<rparr>) host_probe = (host_of native, Inr ())"
  by (simp add: detach_def host_api_def host_of_def host_probe_def XDP_PROGRAM_NAME_def Let_def)

lemma host_drop_probe:
  "drop_ebpf (host_api maps) ((host_of native)\<lparr>ho_hooked := [''eth0'']\<rparr>) (lp_ebpf host_probe) = host_of native"
  by (simp add: host_api_def host_of_def host_probe_def)

lemma sample_spawn:
  "spawn_workers rp_api (rproc_of sg ok) 0 (take 32 (Some r # replicate 31 None)) =
     ((rproc_of sg ok)\<lparr>rp_live := [0]\<rparr>, Inr [0])"
  by (simp add: dispatch_channel_def rp_api_def spawn_workers_none)
    (simp add: rproc_of_def)

lemma sample_capture:
  "capture_main (host_api [''SIGNAL_RING'']) rp_api (host_of []) (rproc_of (Some sg) True) sample_args =
     Some (host_of [], (rproc_of (Some sg) True)\<lparr>rp_flag := True\<rparr>, Inr ())"
proof -
  have "run_capture (host_api [''SIGNAL_RING'']) rp_api ((host_of [])\<lparr>ho_hooked := [''eth0'']\<rparr>)
      ((rproc_of (Some sg) True)\<lparr>rp_live := [0]\<rparr>) host_probe [0] =
    Some (host_of [], (rproc_of (Some sg) True)\<lparr>rp_flag := True\<rparr>, Inr ())"
    by (simp add: run_capture_def shutdown_sequence_def rp_api_def rproc_of_def host_detach_probe)
  then show ?thesis
    using sample_spawn [of "Some sg" True "''SIGNAL_RING''"]
    by (simp add: capture_main_def sample_args host_load_probe del: take_Suc_Cons spawn_workers.simps)
qed

lemma sample_capture_no_handler:
  "capture_main (host_api [''SIGNAL_RING'']) rp_api (host_of []) (rproc_of sg False) sample_args =
     Some (host_of [], (rproc_of sg False)\<lparr>rp_live := [0]\<rparr>, Inl (HandlerFailed Sigint ''EMFILE''))"
proof -
  have "run_capture (host_api [''SIGNAL_RING'']) rp_api ((host_of [])\<lparr>ho_hooked := [''eth0'']\<rparr>)
      ((rproc_of sg False)\<lparr>rp_live := [0]\<rparr>) host_probe [0] =
    Some (host_of [], (rproc_of sg False)\<lparr>rp_live := [0]\<rparr>, Inl (HandlerFailed Sigint ''EMFILE''))"
    by (simp add: run_capture_def rp_api_def rproc_of_def host_drop_probe)
  then show ?thesis
    using sample_spawn [of sg False "''SIGNAL_RING''"]
    by (simp add: capture_main_def sample_args host_load_probe del: take_Suc_Cons spawn_workers.simps)
qed

section \<open>Properties\<close>

text \<open>
  C36. The worker count is at most \<^verbatim>\<open>NCPU\<close> whatever the command line. The decimal
  notation of any 64-bit number, with or without a plus sign, is read back as that number and
  cut at 32; a missing argument or one that is not a number gives 32.
\<close>

theorem worker_count_parsed:
  "worker_count args \<le> NCPU \<and>
   (n < 2 ^ 64 \<longrightarrow> worker_count [prog, iface, decimal n] = min n NCPU \<and>
      worker_count [prog, iface, CHR ''+'' # decimal n] = min n NCPU) \<and>
   worker_count [prog, iface] = NCPU \<and>
   (parse_usize s = None \<longrightarrow> worker_count [prog, iface, s] = NCPU)"
proof -
  have "decimal n \<noteq> []"
    using decimal_head [of n] by auto
  then show ?thesis
    by (auto simp: worker_count_def arg_nth_def parse_decimal)
      (simp_all add: parse_usize_def digits_val_decimal)
qed

theorem worker_count_parsed_witness:
  "worker_count [''sg-capture'', ''eth0'', ''4''] = 4 \<and> worker_count [''sg-capture'', ''eth0'', ''x''] = 32"
proof -
  have "decimal 4 = ''4''"
    by code_simp
  moreover have "parse_usize ''x'' = None"
    by (simp add: parse_usize_def to_digit_def)
  ultimately show ?thesis
    using worker_count_parsed [of "[]" 4 "''sg-capture''" "''eth0''" "''x''"] by (simp add: NCPU_def)
qed

text \<open>
  C23. A successful run is a clean one, under the contracts of aya and of the process: when
  \<^verbatim>\<open>main\<close> returns \<^verbatim>\<open>Ok\<close>, the shutdown flag has been raised, every worker it
  spawned has been joined and every network interface has the hooks it had before.
\<close>

theorem capture_clean_shutdown:
  assumes "xdp_hooks lapi hook owns" "process api flag live" "live v = []"
    and "capture_main lapi api w v args = Some (w', v', Inr ())"
  shows "hook w' = hook w \<and> flag v' \<and> live v' = []"
proof -
  from capture_main_ok_loads [OF assms(4)] obtain iface w1 probe rings where
    l: "arg_nth args 1 = Some iface" "load_and_attach lapi w iface = (w1, Inr (probe, rings))"
    by blast
  obtain r v1 sres where s0: "spawn_workers api v 0 (if worker_count args = 0 then []
       else Some r # replicate (worker_count args - 1) None) = (v1, sres)"
    and c: "case sres of
       Inl err \<Rightarrow> w' = drop_ebpf lapi w1 (lp_ebpf probe) \<and> v' = v1 \<and>
         (Inr () :: main_error + unit) = Inl (ConsumerFailed err)
     | Inr hs \<Rightarrow> run_capture lapi api w1 v1 probe hs = Some (w', v', Inr ())"
    by (rule capture_main_loaded [OF assms(4) l])
  from c obtain hs where "sres = Inr hs" and
    run: "run_capture lapi api w1 v1 probe hs = Some (w', v', Inr ())"
    by (auto split: sum.splits)
  with s0 have s: "spawn_workers api v 0 (if worker_count args = 0 then []
       else Some r # replicate (worker_count args - 1) None) = (v1, Inr hs)"
    by simp
  have "hs \<noteq> []"
    using run by (auto simp: run_capture_def split: prod.splits)
  then have "worker_count args \<noteq> 0"
    using s by (auto split: if_splits)
  from one_worker [OF assms(2) this s] assms(3) have live: "live v1 = hs"
    by auto
  from process.run_capture_cases [OF assms(2) run \<open>hs \<noteq> []\<close>] obtain v2 where
    "live v2 = live v1" "shutdown_sequence lapi api w1 v2 probe hs = Some (w', v', Inr ())"
    by auto
  with process.shutdown_sequence_ok [OF assms(2) this(2)] live obtain dres where
    "flag v'" "live v' = []" and d0: "detach lapi w1 probe = (w', dres)"
      "(Inr () :: main_error + unit) = (case dres of Inl err \<Rightarrow> Inl (DetachError err) | Inr u \<Rightarrow> Inr ())"
    by auto
  from d0 obtain u where d: "detach lapi w1 probe = (w', Inr u)"
    by (cases dres) auto
  with \<open>flag v'\<close> \<open>live v' = []\<close> detach_restores [OF assms(1) l(2) refl d] show ?thesis by simp
qed

theorem capture_clean_shutdown_witness:
  "\<exists>w' v'. capture_main (host_api [''SIGNAL_RING'']) rp_api (host_of []) (rproc_of (Some Sigint) True)
       sample_args = Some (w', v', Inr ()) \<and>
     host_hook w' = host_hook (host_of []) \<and> rp_flag v' \<and> rp_live v' = []"
proof -
  have "rp_live (rproc_of (Some Sigint) True) = []"
    by (simp add: rproc_of_def)
  from capture_clean_shutdown [OF host_hooks ref_process this sample_capture]
  show ?thesis using sample_capture by blast
qed

text \<open>
  C35. What is started: with the rings any successful load returns, a worker count of at least
  one starts exactly one worker whatever the count, for CPU 0, on the loader's ring and on
  a channel of 1024 frames whose other end went to a consumer; a count of zero starts none.
  The worker-per-CPU design of the header comment is never realised.
\<close>

theorem spawns_one_worker:
  assumes "load_and_attach lapi w iface = (w', Inr (probe, rings))"
    and "bounded_channel api v 1024 = (v1, tx, rx)" and "spawn_consumer api v1 0 rx = (v2, Inr u)"
  shows "\<exists>r. spawn_workers api v 0 (take (worker_count args) rings) =
    (if worker_count args = 0 then (v, Inr [])
     else case spawn_worker api v2 \<lparr>wc_cpu = 0, wc_ring = r, wc_tx = tx\<rparr> of (v3, h) \<Rightarrow> (v3, Inr [h]))"
proof -
  obtain r where "rings = Some r # replicate 31 None"
    by (rule loader_rings [OF assms(1)])
  then show ?thesis
    using assms(2,3)
    by (intro exI [of _ r]) (simp add: take_loader_rings dispatch_channel_def DISPATCH_CAPACITY_def
        BATCH_SIZE_def spawn_workers_none split: prod.split)
qed

theorem spawns_one_worker_witness:
  "spawn_workers rp_api (rproc_of None True) 0
     (take (worker_count sample_args) (Some ''SIGNAL_RING'' # replicate 31 None)) =
   ((rproc_of None True)\<lparr>rp_live := [0]\<rparr>, Inr [0])"
proof -
  have p: "bounded_channel rp_api (rproc_of None True) 1024 = (rproc_of None True, 1024, 1024)"
    "spawn_consumer rp_api (rproc_of None True) 0 1024 = (rproc_of None True, Inr ())"
    "spawn_worker rp_api (rproc_of None True) \<lparr>wc_cpu = 0, wc_ring = r, wc_tx = 1024\<rparr> =
      ((rproc_of None True)\<lparr>rp_live := [0]\<rparr>, 0)" for r :: string
    by (simp_all add: rp_api_def) (simp add: rproc_of_def)
  from spawns_one_worker [OF host_load_probe [of "[]"] p(1,2), of sample_args] show ?thesis
    by (simp add: p(3) sample_args del: take_Suc_Cons spawn_workers.simps)
qed

text \<open>
  A worker count of zero: nothing is started, the process state is untouched and the run
  ends in the \<^verbatim>\<open>NoWorkers\<close> error after detaching; if that detach succeeded the interfaces
  are as before.
\<close>

theorem zero_workers_bails:
  assumes "xdp_hooks lapi hook owns" and "worker_count args = 0" and "arg_nth args 1 = Some iface"
    and "load_and_attach lapi w iface = (w1, Inr (probe, rings))"
    and "detach lapi w1 probe = (w2, dres)"
  shows "capture_main lapi api w v args = Some (w2, v, Inl NoWorkers) \<and>
    (\<not> isl dres \<longrightarrow> hook w2 = hook w)"
proof -
  have "capture_main lapi api w v args = Some (w2, v, Inl NoWorkers)"
    using assms(2-5) by (simp add: capture_main_def run_capture_def)
  moreover have "hook w2 = hook w" if "\<not> isl dres"
    using that assms(5) by (cases dres) (auto dest: detach_restores [OF assms(1,4) refl])
  ultimately show ?thesis by simp
qed

theorem zero_workers_bails_witness:
  "capture_main (host_api [''SIGNAL_RING'']) rp_api (host_of []) (rproc_of None True)
     [''sg-capture'', ''eth0'', ''0''] = Some (host_of [], rproc_of None True, Inl NoWorkers)"
proof -
  have a: "worker_count [''sg-capture'', ''eth0'', ''0''] = 0"
    "arg_nth [''sg-capture'', ''eth0'', ''0''] 1 = Some ''eth0''"
    by (simp_all add: worker_count_def arg_nth_def parse_usize_def to_digit_def NCPU_def)
  from zero_workers_bails [OF host_hooks a host_load_probe host_detach_probe] show ?thesis
    by simp
qed

text \<open>
  C26. The failure of a signal handler's installation, under the contract of the process: the
  worker is already running then, the run returns the error with the worker still live and
  the shutdown flag never raised (so, by \<open>poll_loop_returns\<close>, its loop does not end),
  and \<^verbatim>\<open>detach\<close> is not called: only the probe is dropped.
\<close>

theorem handler_failure_leaks_worker:
  assumes "process api flag live" and "live v = []"
    and "capture_main lapi api w v args = Some (w', v', Inl (HandlerFailed sg err))"
  shows "flag v' = flag v \<and> length (live v') = 1 \<and>
    (\<exists>iface w1 probe rings. load_and_attach lapi w iface = (w1, Inr (probe, rings)) \<and>
      w' = drop_ebpf lapi w1 (lp_ebpf probe))"
proof -
  from assms(3) obtain iface w1 probe rings where
    l: "arg_nth args 1 = Some iface" "load_and_attach lapi w iface = (w1, Inr (probe, rings))"
    by (auto simp: capture_main_def split: option.splits prod.splits sum.splits)
  obtain r v1 sres where s0: "spawn_workers api v 0 (if worker_count args = 0 then []
       else Some r # replicate (worker_count args - 1) None) = (v1, sres)"
    and c: "case sres of
       Inl err' \<Rightarrow> w' = drop_ebpf lapi w1 (lp_ebpf probe) \<and> v' = v1 \<and>
         (Inl (HandlerFailed sg err) :: main_error + unit) = Inl (ConsumerFailed err')
     | Inr hs \<Rightarrow> run_capture lapi api w1 v1 probe hs = Some (w', v', Inl (HandlerFailed sg err))"
    by (rule capture_main_loaded [OF assms(3) l])
  from c obtain hs where hs: "sres = Inr hs"
    and run: "run_capture lapi api w1 v1 probe hs = Some (w', v', Inl (HandlerFailed sg err))"
    by (auto split: sum.splits)
  have "hs \<noteq> []"
    using run by (auto simp: run_capture_def split: prod.splits)
  with s0 hs have n: "worker_count args \<noteq> 0"
    by (auto split: if_splits)
  obtain h where "hs = [h]" "flag v1 = flag v" "live v1 = live v @ [h]"
    by (rule one_worker [OF assms(1) n s0 [unfolded hs]])
  with assms(2) have v1: "flag v1 = flag v" "length (live v1) = 1"
    by simp_all
  have "shutdown_sequence lapi api w1 v2 probe hs \<noteq> Some (w', v', Inl (HandlerFailed sg err))" for v2
    using shutdown_sequence_result [of lapi api w1 v2 probe hs w' v' "Inl (HandlerFailed sg err)"]
    by auto
  with process.run_capture_cases [OF assms(1) run \<open>hs \<noteq> []\<close>]
  have "w' = drop_ebpf lapi w1 (lp_ebpf probe) \<and> flag v' = flag v1 \<and> live v' = live v1"
    by blast
  with v1 l(2) show ?thesis
    by (intro conjI exI [of _ iface] exI [of _ w1] exI [of _ probe] exI [of _ rings]) simp_all
qed

theorem handler_failure_leaks_worker_witness:
  "\<exists>w' v'. capture_main (host_api [''SIGNAL_RING'']) rp_api (host_of []) (rproc_of None False)
       sample_args = Some (w', v', Inl (HandlerFailed Sigint ''EMFILE'')) \<and>
     \<not> rp_flag v' \<and> length (rp_live v') = 1"
proof -
  have p: "rp_live (rproc_of None False) = []" "\<not> rp_flag (rproc_of None False)"
    by (simp_all add: rproc_of_def)
  from handler_failure_leaks_worker [OF ref_process p(1) sample_capture_no_handler] p(2)
  show ?thesis using sample_capture_no_handler [of None] by auto
qed

end
