(* ===== verification/Spec2Isabelle.thy ===== *)
theory Spec2Isabelle
  imports SG_Errors SG_HeaderImages SG_Refinement SG_Pipeline SG_Capture
begin

text \<open>
  A verification development for \<^verbatim>\<open>shiva-protocol\<close>: a kernel program that turns
  selected packets into 64-byte telemetry frames, and a userspace engine that drains them.

  \<^bold>\<open>The program.\<close> \<^verbatim>\<open>sg-ebpf\<close> is an XDP program. On every packet
  \<^verbatim>\<open>xdp_ingress\<close> parses the headers (\<^verbatim>\<open>proto_view.rs\<close>), hashes the 5-tuple,
  checks a deny bitmap and a per-CPU counter (\<^verbatim>\<open>filter.rs\<close>, \<^verbatim>\<open>maps.rs\<close>), fills a
  \<^verbatim>\<open>SignalFrame\<close> and copies it to one ring buffer that all CPUs share.
  \<^verbatim>\<open>sg-common\<close> declares the frame and the constants both sides use.
  \<^verbatim>\<open>sg-capture\<close> loads the program and attaches it to an interface
  (\<^verbatim>\<open>loader.rs\<close>), starts a vacuum worker per ring handle (\<^verbatim>\<open>main.rs\<close>), which
  validates the records and sends the frames to a bounded channel (\<^verbatim>\<open>vacuum.rs\<close>,
  \<^verbatim>\<open>dispatch.rs\<close>), counts what happens (\<^verbatim>\<open>metrics.rs\<close>), and on a signal stops
  the workers and detaches.

  \<^bold>\<open>Theories and sources.\<close>
  \<^item> \<open>SG_Prelude\<close>: Rust integers as words, saturating arithmetic, little-endian byte views.
  \<^item> \<open>SG_Frame\<close>: \<^verbatim>\<open>lib.rs\<close>, \<^verbatim>\<open>map_keys.rs\<close>, \<^verbatim>\<open>signal_frame.rs\<close> of
    \<^verbatim>\<open>sg-common\<close>; the record \<open>signal_frame\<close>, its \<^verbatim>\<open>repr(C)\<close> layout, its byte
    image \<open>frame_bytes\<close> and the cast \<open>frame_of_bytes\<close>, as the interface \<open>frame_codec\<close>.
  \<^item> \<open>SG_Errors\<close>: \<^verbatim>\<open>errors.rs\<close>.
  \<^item> \<open>SG_Hash\<close>: \<^verbatim>\<open>murmur3_13\<close> and \<^verbatim>\<open>fmix32\<close> of \<^verbatim>\<open>filter.rs\<close>, and the
    byte-string reference \<open>murmur3_32\<close>.
  \<^item> \<open>SG_ProtoView\<close>: \<^verbatim>\<open>proto_view.rs\<close>; \<open>inspect\<close> with every load checked, and its
    specification \<open>parse_packet\<close> on the packet's bytes.
  \<^item> \<open>SG_Maps\<close>: \<^verbatim>\<open>maps.rs\<close>; the BPF helpers as the argument \<open>bpf_api\<close>, their
    documented behaviour as the locale \<open>bpf_maps\<close>, a reference kernel \<open>ref_bpf\<close>.
  \<^item> \<open>SG_Filter\<close>: \<open>select\<close> of \<^verbatim>\<open>filter.rs\<close>.
  \<^item> \<open>SG_Xdp\<close>: \<^verbatim>\<open>sg-ebpf/src/main.rs\<close>; \<open>xdp_ingress\<close> as \<open>xdp_prepare\<close> and
    \<open>xdp_commit\<close>, and runs of one CPU (\<open>xdp_reach\<close>).
  \<^item> \<open>SG_Metrics\<close>: \<^verbatim>\<open>metrics.rs\<close>; counters, aggregation, drop rate, reporter loop.
  \<^item> \<open>SG_Dispatch\<close>: \<^verbatim>\<open>dispatch.rs\<close>; \<open>try_dispatch\<close> over the contracts
    \<open>frame_channel\<close> and \<open>bounded_fifo\<close>.
  \<^item> \<open>SG_Vacuum\<close>, \<open>SG_VacuumRun\<close>: \<^verbatim>\<open>vacuum.rs\<close>; \<open>take_record\<close>, \<open>drain_loop\<close>,
    \<open>dispatch_loop\<close>, \<open>poll_loop\<close>, \<open>vacuum_entry\<close> over the contract \<open>vacuum_env\<close>, the
    specification \<open>accepted\<close> of the validation, and a reference world.
  \<^item> \<open>SG_WorkerSteps\<close>: the same loop in small steps (\<open>wstep\<close>), one per access to shared
    state, and its runs interleaved with other threads (\<open>interleaved\<close>); the contract of the flag
    is \<open>vacuum_flag\<close>.
  \<^item> \<open>SG_Smp\<close>: several CPUs on one ring, as the step relation \<open>smp_step\<close> over
    \<open>xdp_prepare\<close> and \<open>xdp_commit\<close>.
  \<^item> \<open>SG_Consumer\<close>: a turn of the consumer thread of \<^verbatim>\<open>sg-capture/src/main.rs\<close> over the
    contract \<open>frame_receiver\<close>.
  \<^item> \<open>SG_System\<close>: the running system. The worker's small steps over a world (\<open>sys\<close>) that holds
    the kernel with its ring, the channel, the consumer and the flag; \<open>sys_env\<close> is what happens
    between two of them.
  \<^item> \<open>SG_Refinement\<close>: the abstract specification of the pipeline, a lossy first-in first-out
    queue (\<open>fifo_step\<close>), and the simulation of the running system by it (\<open>sys_abs\<close>).
  \<^item> \<open>SG_Pipeline\<close>: the worker and the consumer as threads over that system
    (\<open>thread_step\<close>, \<open>pipe_run\<close>), with the owners of the sender and of the receiver as the spawn
    loop of \<^verbatim>\<open>sg-capture/src/main.rs\<close> moves them (\<open>open_pipeline\<close>).
  \<^item> \<open>SG_Bitfield\<close>, \<open>SG_Headers\<close>, \<open>SG_HeaderImages\<close>: \<^verbatim>\<open>vmlinux.rs\<close>, the bindgen output
    for the kernel's types, which is compiled in although no function calls it: the bit-field
    unit against a list of bits, the header structs with one definition per accessor and the
    contract \<open>header_fields\<close>, and their byte images.
  \<^item> \<open>SG_PerCpuRing\<close>: \<^verbatim>\<open>percpu_ring.rs\<close>.
  \<^item> \<open>SG_Loader\<close>: \<^verbatim>\<open>loader.rs\<close>; aya and the file system as the argument
    \<open>loader_api\<close>, the contract \<open>xdp_hooks\<close>, a reference host.
  \<^item> \<open>SG_Capture\<close>: \<^verbatim>\<open>sg-capture/src/main.rs\<close>; threads, channels and signals as the
    argument \<open>proc_api\<close>, the contract \<open>process\<close>, a reference process.
  \<^item> This theory: the properties that span both programs.

  \<^bold>\<open>Conventions.\<close> Integers keep their width. A result type is a sum with the error on the
  left, an absent value is an option. A panic or a memory fault is a value of its own. Code
  outside the repository is an argument; what is relied on about it is the locale of the same
  theory, and every locale is interpreted on the model's own or on reference definitions.

  \<^bold>\<open>What is shown.\<close> Kernel side: the parser is memory safe and correct, the unrolled hash is
  Murmur3-32, selection and the whole handler are characterised on every branch, the handler
  always passes the packet, the counter is a budget that is never refilled. Across the
  boundary: the frame's layout, the codec is a bijection, and a committed record decodes to
  the packet's frame. Userspace: the worker is a filter of the record stream that accounts for
  every record exactly once, sends in timestamp order and returns exactly when it sees the
  shutdown flag; loading and detaching restore the interfaces; a successful run of the
  coordinator is clean. On several CPUs the records of each CPU stay in order, but the shared
  ring does not, so the worker rejects valid frames; with one CPU it rejects none. The whole
  system, in every interleaving of the CPUs, the worker and the consumer: each committed
  record is in exactly one place at every moment, the consumer receives in commit order, the
  whole refines a lossy first-in first-out queue, the worker stops within 516 of its steps
  once the flag is up. The worker drops the only sender when it returns, so the consumer ends,
  after the worker and with all that was sent. The bindings: a bit field is a slice of a list of
  bits, setters are independent, the accessors through a pointer agree with the safe ones, the
  fields are those of the wire format, and the parser's hand-written offsets are those of the
  structs. Where a theorem contradicts a comment of the sources its text says so.

  \<^bold>\<open>Bounds and loops.\<close> The drain and join loops are structural. The poll loop is a partial
  function whose value \<open>None\<close> is not returning; \<open>poll_loop_returns\<close> says exactly when that is.
  \<open>small_steps_are_the_loop\<close> relates it to the small steps, and \<open>shutdown_bounded\<close> bounds them:
  4 + 2 * 256 steps for a full drain and its dispatch. A call of the consumer that blocks is
  \<open>None\<close>, so no step; from the flag on, worker and consumer together make at most 2058 steps:
  twice 516 and the return for the worker, 1024 frames and the return for the consumer. Waiting
  for a signal or a worker for ever is \<open>None\<close> in the coordinator. The reporter runs
  over the list of observations its ticks make. No fuel is used.

  \<^bold>\<open>Not modelled.\<close> Log output and log initialisation; the memory orderings of the atomics (a
  step reads or writes one sequentially); the panic handler of the kernel program, which no
  modelled path reaches; the panic of \<^verbatim>\<open>env::args\<close> on an argument that is not Unicode. Both
  profiles abort on a panic, so a panic ends the process where it happens and nothing is
  dropped. The start of the two threads of a pipeline is one step, before any frame can be
  sent; code the README describes that is not in the repository.
\<close>

section \<open>From the packet to the decoded frame\<close>

lemma murmur3_view:
  "unat (view_hash v) = unat (murmur3_32 0 (le_bytes 4 (src_ip v) @ le_bytes 4 (dst_ip v) @
     (le_bytes 2 (src_port v) @ le_bytes 2 (dst_port v)) @ [proto v]))"
proof -
  have "unat (ucast (w :: u32) :: u64) = unat w" for w
    by (simp add: unsigned_ucast_eq take_bit_nat_eq_self less_trans [OF unat_lt_2p32])
  then show ?thesis
    by (simp only: view_hash_def murmur3_13_reference)
qed

text \<open>
  C4. What one packet becomes, across the two programs: when an invocation of the kernel
  program commits a record, the packet parses, the record has the size the vacuum worker
  insists on, and the worker's cast of it is a frame with the Murmur3-32 hash of the packet's
  5-tuple, the packet's IPv4 header bytes verbatim, the clock after the selection, the CPU that ran the program and the
  counter before the packet.
\<close>

theorem packet_reaches_worker:
  assumes "bpf_maps api kinv deny pps records" and "kinv k"
    and "xdp_ingress api k ctx = Some (k', a)" and "records k' \<noteq> records k"
  shows "\<exists>v r. parse_packet (packet ctx) = Some v \<and> records k' = records k @ [r] \<and>
    length r = SIGNAL_FRAME_SIZE \<and>
    l3_hdr (frame_of_bytes r) = take 20 (drop 14 (packet ctx)) \<and>
    unat (flow_hash (frame_of_bytes r)) = unat (murmur3_32 0 (le_bytes 4 (src_ip v) @
      le_bytes 4 (dst_ip v) @ (le_bytes 2 (src_port v) @ le_bytes 2 (dst_port v)) @ [proto v])) \<and>
    timestamp_ns (frame_of_bytes r) = ktime_get_ns api (fst (select api k v)) \<and>
    cpu_id (frame_of_bytes r) = smp_processor_id api k \<and>
    unat (pps_delta (frame_of_bytes r)) = unat (pps k)"
proof -
  obtain v where v: "parse_packet (packet ctx) = Some v"
    and pass: "passes (deny k) (pps k) (view_hash v)"
    using bpf_maps.ingress_effect [OF assms(1-3)] assms(4)
    by (auto split: option.splits if_splits)
  obtain now where rec: "records k' = records k @
      [frame_bytes (frame_for now (smp_processor_id api k) (pps k) v)]"
    and now: "now = ktime_get_ns api (fst (select api k v))"
    using bpf_maps.ingress_effect [OF assms(1-3)] assms(4) v pass
    by (auto simp: committed_def Let_def split: if_splits)
  have hdr: "pv_l3_hdr v = take 20 (drop 14 (packet ctx))"
    using v by (auto simp: parse_packet_def split: if_splits)
  have wf: "frame_wf (frame_for now (smp_processor_id api k) (pps k) v)"
    using parse_packet_header [OF v] by simp
  have "unat (pps k) < 1000000"
    using pass by (simp add: passes_def)
  then have "unat (ucast (pps k) :: u32) = unat (pps k)"
    by (simp add: unsigned_ucast_eq take_bit_nat_eq_self)
  then show ?thesis
    using v rec wf hdr now
    by (intro exI [of _ v] exI [of _ "frame_bytes (frame_for now (smp_processor_id api k) (pps k) v)"])
      (simp add: fc.dec_enc, simp add: frame_for_def murmur3_view)
qed

theorem packet_reaches_worker_witness:
  "\<exists>k' r. xdp_ingress ref_bpf (boot 3 42) (ctx_of sample_packet) = Some (k', XDP_PASS) \<and>
     ks_history k' = [r] \<and> length r = 64 \<and> cpu_id (frame_of_bytes r) = 3"
proof -
  have b: "ks_history (boot 3 42) = []" "smp_processor_id ref_bpf (boot 3 42) = 3"
    by (simp_all add: boot_def ref_bpf_def)
  from packet_reaches_worker [OF ref_bpf_maps ref_inv_boot ingress_boot [of 3 42]] b
  show ?thesis
    using ingress_boot [of 3 42] by auto
qed

section \<open>From one CPU's traffic to the channel\<close>

text \<open>
  C17. The pipeline loses nothing to validation when one CPU carries the traffic: for every
  interleaving of the kernel side and every run of a worker that read an initial part of the
  ring, the worker counted no drop and offered every record it read to its channel, in order;
  a frame can only be lost to a full or disconnected channel. The hypothesis is needed:
  \<open>cross_cpu_frame_rejected\<close> has two CPUs.
\<close>

theorem one_cpu_pipeline_lossless:
  assumes "smp_kernel api kinv deny pps records on_cpu" and "kinv k0" and "records k0 = []"
    and "smp_reach api kinv records on_cpu k0 (k, pend)"
    and "records k = rs @ rest" and "\<forall>r \<in> set rs. rec_cpu r = c"
    and "vacuum_env vapi sent taken bapi contents" and "metrics_wf m" and "cpu < NCPU"
    and "vacuum_entry vapi bapi cpu m w = Some (w', m', ShutDown)" and "taken w' = taken w @ rs"
  shows "drop_at m' cpu = drop_at m cpu \<and>
    (\<exists>outs. length outs = length rs \<and> sent w' = sent w @ delivered (map frame_of_bytes rs) outs)"
proof -
  have "smp_inv api kinv records (k, pend)"
    by (rule smp_kernel.reach_inv [OF assms(1-4)])
  then have "cpu_ordered (rs @ rest)" "\<forall>r \<in> set rs. length r = 64 \<and> rec_cpu r = c"
    using assms(5,6) by (auto simp: smp_inv_def)
  then have acc: "accepted 0 rs = map frame_of_bytes rs"
    by (rule accepted_one_cpu)
  from vacuum_env.vacuum_entry_ran [OF assms(7,10,8,9)] obtain rs' outs where
    "taken w' = taken w @ rs'" "length outs = length (accepted 0 rs')"
    "sent w' = sent w @ delivered (accepted 0 rs') outs"
    "counted m m' cpu (count_list outs (Inr ())) (length rs' - length (accepted 0 rs'))
      (count_list outs (Inl Full))"
    by blast
  with assms(9,11) acc show ?thesis
    by (auto simp: counted_def)
qed

theorem one_cpu_pipeline_lossless_witness:
  "\<exists>w' m'. vacuum_entry rw_api vec_api 0 metrics_new (rworld_of [frame_bytes (race_frame 10 0)] 1) =
       Some (w', m', ShutDown) \<and> drop_at m' 0 = 0"
proof -
  let ?r = "frame_bytes (race_frame 10 0)"
  have k: "ref_inv (race_kernel 10 0 {} [])" "ks_history (race_kernel 10 0 {} []) = []"
    "ks_history (race_kernel 10 0 {0} [race_frame 10 0]) = [?r] @ []"
    by (simp_all add: race_kernel_def boot_def ref_inv_def DENY_MAP_ENTRIES_def)
  have c: "\<forall>r \<in> set [?r]. rec_cpu r = 0" "good 0 ?r" "(0 :: nat) < NCPU"
    by (simp_all add: rec_cpu_def fc.dec_enc good_def NCPU_def)
  from single_run [OF c(2,3)] obtain w' m' where
    run: "vacuum_entry rw_api vec_api 0 metrics_new (rworld_of [?r] 1) = Some (w', m', ShutDown)"
    and t: "rw_taken w' = rw_taken (rworld_of [?r] 1) @ [?r]"
    by (auto simp: rworld_of_def)
  have "drop_at m' 0 = drop_at metrics_new 0"
    using one_cpu_pipeline_lossless [OF ref_smp k(1,2) single_reach k(3) c(1) ref_env
        metrics_wf_new c(3) run t] by blast
  with run c(3) show ?thesis by simp
qed

end
